theory Spec2Isabelle
  imports Complex_Main
begin

section \<open>Errors\<close>

text \<open>
  Python exceptions that the modelled functions can raise become values of one datatype;
  a function that can raise returns \<open>pyerror + 'a\<close>, with \<open>Inl\<close> for the exception.
\<close>

datatype pyerror =
  TypeError | ValueError | AttributeError | IndexError | OverflowError | UnboundLocalError |
  NetworkError

section \<open>Time manager (engine/time\_manager.py)\<close>

text \<open>
  \<open>TimeManager\<close> keeps the raw time-control string and the parsed fields. Python floats
  are modelled by reals; the fields that start as \<open>None\<close> are options.
\<close>

record TimeManager =
  time_control :: "string option"
  time_left :: "real option"
  increment :: "real option"
  moves_to_go :: "nat option"
  start_time :: "real option"

text \<open>\<open>__init__\<close> stores the string and leaves every parsed field \<open>None\<close>.\<close>

definition TimeManager_init :: "string option \<Rightarrow> TimeManager" where
  "TimeManager_init tc =
     \<lparr>time_control = tc, time_left = None, increment = None,
      moves_to_go = None, start_time = None\<rparr>"

text \<open>\<open>update_time\<close> overwrites the remaining time only.\<close>

definition update_time :: "TimeManager \<Rightarrow> real \<Rightarrow> TimeManager" where
  "update_time tm t = tm\<lparr>time_left := Some t\<rparr>"

text \<open>
  Dividing a float by an \<open>int\<close> converts the \<open>int\<close> to a float first, which raises
  OverflowError when it is too large: the largest finite double is \<open>2^1024 - 2^971\<close> and
  every integer from \<open>2^1024 - 2^970\<close> on rounds beyond it. (Floats are modelled by reals:
  the rounding of the conversion is not modelled, its overflow is.)
\<close>

definition FLOAT_INT_LIMIT :: int where
  "FLOAT_INT_LIMIT = 2 ^ 1024 - 2 ^ 970"

definition int_to_float :: "int \<Rightarrow> pyerror + real" where
  "int_to_float m = (if \<bar>m\<bar> < FLOAT_INT_LIMIT then Inr (real_of_int m) else Inl OverflowError)"

text \<open>
  \<open>get_time_budget(moves_remaining)\<close>. The division raises OverflowError for a huge
  \<open>moves_remaining\<close>; adding the increment raises \<open>TypeError\<close> when \<open>time_left\<close> is a
  number and \<open>increment\<close> is still \<open>None\<close>.
\<close>

definition get_time_budget :: "TimeManager \<Rightarrow> int option \<Rightarrow> pyerror + real" where
  "get_time_budget tm moves_remaining =
     (case time_left tm of
        None \<Rightarrow> Inr 5.0
      | Some t \<Rightarrow>
          (let mr = (case moves_remaining of None \<Rightarrow> 20 | Some m \<Rightarrow> m)
           in case int_to_float (max 1 mr) of
                Inl e \<Rightarrow> Inl e
              | Inr divisor \<Rightarrow>
                  (let base_time = t / divisor
                   in case increment tm of
                        None \<Rightarrow> Inl TypeError
                      | Some inc \<Rightarrow>
                          (let total_time = base_time + inc;
                               reserve_factor = 0.8;
                               budget = total_time * reserve_factor;
                               budget' = min budget (t * 0.1)
                           in Inr (max 0.1 budget')))))"

text \<open>
  The states the class reaches through \<open>__init__\<close> and a successful
  \<open>_parse_time_control\<close>: no time control parsed (both fields \<open>None\<close>) or both the
  remaining time and the increment set.
\<close>

definition parsed_or_absent :: "TimeManager \<Rightarrow> bool" where
  "parsed_or_absent tm = (time_left tm = None \<or> increment tm \<noteq> None)"

text \<open>The values of \<open>moves_remaining\<close> whose divisor converts to a float.\<close>

definition float_sized :: "int option \<Rightarrow> bool" where
  "float_sized moves_remaining =
     (case moves_remaining of None \<Rightarrow> True | Some m \<Rightarrow> max 1 m < FLOAT_INT_LIMIT)"

text \<open>The state after \<open>set_time_control("300+5")\<close>.\<close>

definition parsed_300_5 :: TimeManager where
  "parsed_300_5 =
     \<lparr>time_control = Some ''300+5'', time_left = Some 300, increment = Some 5,
      moves_to_go = None, start_time = None\<rparr>"

section \<open>The chess library's data (python-chess)\<close>

text \<open>
  The engine is written against the python-chess library, which is not part of the
  repository. Its data types are modelled as the library documents them: a piece type is
  one of six kinds, a colour is a boolean (\<open>WHITE = True\<close>), a square is a number below 64
  and a move is an origin, a destination, an optional promotion piece and an optional
  drop piece (always \<open>None\<close> in standard chess).
\<close>

datatype piece_type = PAWN | KNIGHT | BISHOP | ROOK | QUEEN | KING

definition WHITE :: bool where "WHITE = True"
definition BLACK :: bool where "BLACK = False"

record piece =
  piece_type :: piece_type
  color :: bool

record move =
  from_square :: nat
  to_square :: nat
  promotion :: "piece_type option"
  drop_piece :: "piece_type option"

text \<open>\<open>chess.Move(from_square, to_square, promotion=None)\<close>\<close>

definition Move :: "nat \<Rightarrow> nat \<Rightarrow> piece_type option \<Rightarrow> move" where
  "Move f t p = \<lparr>from_square = f, to_square = t, promotion = p, drop_piece = None\<rparr>"

definition SQUARES :: "nat list" where
  "SQUARES = [0..<64]"

text \<open>
  The operations of \<open>chess.Board\<close> that the engine calls are parameters of the model: a
  record of functions over an arbitrary board type. \<open>push\<close> returns the position after a
  move; the engine's \<open>board.pop()\<close> goes back to the position before it, so the model
  simply keeps using the earlier board value. \<open>legal_moves\<close> is
  \<open>list(board.legal_moves)\<close> in the library's generation order.
  \<open>move in board.legal_moves\<close> is answered by the library's \<open>board.is_legal(move)\<close>,
  which is not membership in that list (for castling it also accepts the move written as
  king takes rook), so it is a parameter of its own. \<open>ply\<close> is
  \<open>len(board.move_stack)\<close>.
\<close>

record 'b chess_lib =
  legal_moves :: "'b \<Rightarrow> move list"
  is_legal :: "'b \<Rightarrow> move \<Rightarrow> bool"
  piece_at :: "'b \<Rightarrow> nat \<Rightarrow> piece option"
  turn :: "'b \<Rightarrow> bool"
  push :: "'b \<Rightarrow> move \<Rightarrow> 'b"
  ply :: "'b \<Rightarrow> nat"
  fen :: "'b \<Rightarrow> string"
  is_capture :: "'b \<Rightarrow> move \<Rightarrow> bool"
  is_checkmate :: "'b \<Rightarrow> bool"
  is_stalemate :: "'b \<Rightarrow> bool"
  is_insufficient_material :: "'b \<Rightarrow> bool"
  is_game_over :: "'b \<Rightarrow> bool"

section \<open>Static evaluation (engine/evaluation.py)\<close>

text \<open>\<open>int(x)\<close> on a float truncates towards zero.\<close>

definition py_int :: "real \<Rightarrow> int" where
  "py_int x = (if 0 \<le> x then \<lfloor>x\<rfloor> else \<lceil>x\<rceil>)"

definition value_to_centipawns :: "real \<Rightarrow> int" where
  "value_to_centipawns val = py_int (val * 1000)"

definition centipawns_to_value :: "int \<Rightarrow> real" where
  "centipawns_to_value cp = (let cp' = max (- 1000) (min 1000 cp) in real_of_int cp' / 1000.0)"

fun piece_values :: "piece_type \<Rightarrow> int" where
  "piece_values PAWN = 100"
| "piece_values KNIGHT = 320"
| "piece_values BISHOP = 330"
| "piece_values ROOK = 500"
| "piece_values QUEEN = 900"
| "piece_values KING = 20000"

text \<open>The body of the loop over \<open>chess.SQUARES\<close>: one square's contribution.\<close>

definition count_square :: "'b chess_lib \<Rightarrow> 'b \<Rightarrow> int \<Rightarrow> nat \<Rightarrow> int" where
  "count_square L board material_score square =
     (case piece_at L board square of
        None \<Rightarrow> material_score
      | Some pc \<Rightarrow>
          (let val = piece_values (piece_type pc)
           in if color pc = WHITE then material_score + val else material_score - val))"

definition evaluate_position :: "'b chess_lib \<Rightarrow> 'b \<Rightarrow> real \<times> int" where
  "evaluate_position L board =
     (let material_score = foldl (count_square L board) 0 SQUARES;
          material_score' = (if \<not> turn L board then - material_score else material_score);
          val = centipawns_to_value material_score'
      in (val, material_score'))"

section \<open>A small board type for concrete positions\<close>

text \<open>
  Concrete inputs are given as finite game trees: a position lists its pieces, the side to
  move, its legal moves with the positions they lead to, and the library's answers to the
  status queries.
\<close>

datatype toy_board =
  ToyBoard (tb_fen: string) (tb_pieces: "(nat \<times> piece) list") (tb_turn: bool)
    (tb_moves: "(move \<times> toy_board) list") (tb_ply: nat) (tb_mate: bool)

definition toy_push :: "toy_board \<Rightarrow> move \<Rightarrow> toy_board" where
  "toy_push b m = (case map_of (tb_moves b) m of Some b' \<Rightarrow> b' | None \<Rightarrow> b)"

definition toy_lib :: "toy_board chess_lib" where
  "toy_lib =
     \<lparr>legal_moves = (\<lambda>b. map fst (tb_moves b)),
      is_legal = (\<lambda>b m. m \<in> set (map fst (tb_moves b))),
      piece_at = (\<lambda>b. map_of (tb_pieces b)),
      turn = tb_turn,
      push = toy_push,
      ply = tb_ply,
      fen = tb_fen,
      is_capture = (\<lambda>b m. map_of (tb_pieces b) (to_square m) \<noteq> None),
      is_checkmate = tb_mate,
      is_stalemate = (\<lambda>b. \<not> tb_mate b \<and> tb_moves b = []),
      is_insufficient_material = (\<lambda>b. False),
      is_game_over = (\<lambda>b. tb_moves b = [])\<rparr>"

text \<open>
  The last position of the repository's search tests, \<open>8/8/8/8/8/8/8/4K3 w - - 0 1\<close>: a
  lone white king on e1, White to move. The evaluation reads the pieces and the side to
  move only, so the king's moves are not listed.
\<close>

definition king_only :: toy_board where
  "king_only =
     ToyBoard ''8/8/8/8/8/8/8/4K3 w - - 0 1'' [(4, \<lparr>piece_type = KING, color = True\<rparr>)] True
       [] 0 False"

text \<open>White king e1, queen d1, rook a1 against the black king on e8, White to move.\<close>

definition kqr_vs_k :: toy_board where
  "kqr_vs_k =
     ToyBoard ''4k3/8/8/8/8/8/8/R2QK3 w - - 0 1''
       [(4, \<lparr>piece_type = KING, color = True\<rparr>), (3, \<lparr>piece_type = QUEEN, color = True\<rparr>),
        (0, \<lparr>piece_type = ROOK, color = True\<rparr>), (60, \<lparr>piece_type = KING, color = False\<rparr>)]
       True [] 0 False"

section \<open>Move index (engine/move\_index.py)\<close>

subsection \<open>Square and piece names of the library\<close>

text \<open>
  \<open>chess.SQUARE_NAMES\<close> is \<open>[f + r for r in RANK_NAMES for f in FILE_NAMES]\<close>;
  \<open>chess.square_name(sq)\<close> indexes it (IndexError outside the board) and
  \<open>chess.parse_square(name)\<close> is \<open>SQUARE_NAMES.index(name)\<close> (ValueError when absent).
\<close>

definition FILE_NAMES :: "char list" where
  "FILE_NAMES = ''abcdefgh''"

definition RANK_NAMES :: "char list" where
  "RANK_NAMES = ''12345678''"

definition SQUARE_NAMES :: "string list" where
  "SQUARE_NAMES = concat (map (\<lambda>r. map (\<lambda>f. [f, r]) FILE_NAMES) RANK_NAMES)"

definition square_name :: "nat \<Rightarrow> pyerror + string" where
  "square_name sq = (if sq < length SQUARE_NAMES then Inr (SQUARE_NAMES ! sq) else Inl IndexError)"

text \<open>\<open>list.index\<close>: the first position of an element, \<open>None\<close> where Python raises.\<close>

fun index_of :: "'a \<Rightarrow> 'a list \<Rightarrow> nat option" where
  "index_of x [] = None"
| "index_of x (y # ys) = (if x = y then Some 0 else map_option Suc (index_of x ys))"

definition parse_square :: "string \<Rightarrow> pyerror + nat" where
  "parse_square name =
     (case index_of name SQUARE_NAMES of None \<Rightarrow> Inl ValueError | Some i \<Rightarrow> Inr i)"

text \<open>
  \<open>chess.PIECE_SYMBOLS = [None, "p", "n", "b", "r", "q", "k"]\<close>, indexed by piece type;
  \<open>PIECE_SYMBOLS.index(c)\<close> goes back from a symbol to the piece type.
\<close>

fun piece_symbol :: "piece_type \<Rightarrow> char" where
  "piece_symbol PAWN = CHR ''p''"
| "piece_symbol KNIGHT = CHR ''n''"
| "piece_symbol BISHOP = CHR ''b''"
| "piece_symbol ROOK = CHR ''r''"
| "piece_symbol QUEEN = CHR ''q''"
| "piece_symbol KING = CHR ''k''"

definition PIECE_TYPES :: "piece_type list" where
  "PIECE_TYPES = [PAWN, KNIGHT, BISHOP, ROOK, QUEEN, KING]"

definition piece_of_symbol :: "char \<Rightarrow> pyerror + piece_type" where
  "piece_of_symbol c =
     (case find (\<lambda>pt. piece_symbol pt = c) PIECE_TYPES of
        None \<Rightarrow> Inl ValueError
      | Some pt \<Rightarrow> Inr pt)"

text \<open>\<open>str.upper\<close> and \<open>str.lower\<close> on one ASCII character.\<close>

definition char_upper :: "char \<Rightarrow> char" where
  "char_upper c =
     (let n = (of_char c :: nat) in if 97 \<le> n \<and> n \<le> 122 then char_of (n - 32) else c)"

definition char_lower :: "char \<Rightarrow> char" where
  "char_lower c =
     (let n = (of_char c :: nat) in if 65 \<le> n \<and> n \<le> 90 then char_of (n + 32) else c)"

subsection \<open>The index\<close>

record MoveIndex =
  move_to_id :: "string \<rightharpoonup> int"
  id_to_move :: "int \<rightharpoonup> string"
  next_id :: int

definition move_to_string :: "nat \<Rightarrow> nat \<Rightarrow> piece_type option \<Rightarrow> pyerror + string" where
  "move_to_string from_sq_n to_sq_n promo =
     (case square_name from_sq_n of
        Inl e \<Rightarrow> Inl e
      | Inr from_sq \<Rightarrow>
          (case square_name to_sq_n of
             Inl e \<Rightarrow> Inl e
           | Inr to_sq \<Rightarrow>
               (case promo of
                  Some pt \<Rightarrow> Inr (from_sq @ to_sq @ [char_upper (piece_symbol pt)])
                | None \<Rightarrow> Inr (from_sq @ to_sq))))"

text \<open>A \<open>for\<close> loop whose body may raise: the first exception ends the loop.\<close>

fun for_each :: "('a \<Rightarrow> 's \<Rightarrow> pyerror + 's) \<Rightarrow> 'a list \<Rightarrow> 's \<Rightarrow> pyerror + 's" where
  "for_each body [] s = Inr s"
| "for_each body (x # xs) s =
     (case body x s of Inl e \<Rightarrow> Inl e | Inr s' \<Rightarrow> for_each body xs s')"

text \<open>The innermost statement of \<open>_generate_all_moves\<close>: give a new string the next id.\<close>

definition register_move :: "MoveIndex \<Rightarrow> string \<Rightarrow> MoveIndex" where
  "register_move self move_str =
     (if move_to_id self move_str = None
      then self\<lparr>move_to_id := (move_to_id self)(move_str \<mapsto> next_id self),
                id_to_move := (id_to_move self)(next_id self \<mapsto> move_str),
                next_id := next_id self + 1\<rparr>
      else self)"

definition PROMOTION_CHOICES :: "piece_type option list" where
  "PROMOTION_CHOICES = [None, Some QUEEN, Some ROOK, Some BISHOP, Some KNIGHT]"

definition generate_piece :: "nat \<Rightarrow> nat \<Rightarrow> piece_type option \<Rightarrow> MoveIndex \<Rightarrow> pyerror + MoveIndex" where
  "generate_piece from_sq to_sq pt self =
     (case move_to_string from_sq to_sq pt of
        Inl e \<Rightarrow> Inl e
      | Inr move_str \<Rightarrow> Inr (register_move self move_str))"

definition generate_to :: "nat \<Rightarrow> nat \<Rightarrow> MoveIndex \<Rightarrow> pyerror + MoveIndex" where
  "generate_to from_sq to_sq self =
     (if from_sq = to_sq then Inr self
      else for_each (generate_piece from_sq to_sq) PROMOTION_CHOICES self)"

definition generate_from :: "nat \<Rightarrow> MoveIndex \<Rightarrow> pyerror + MoveIndex" where
  "generate_from from_sq self = for_each (generate_to from_sq) [0..<64] self"

definition generate_all_moves :: "MoveIndex \<Rightarrow> pyerror + MoveIndex" where
  "generate_all_moves self = for_each generate_from [0..<64] self"

definition empty_index :: MoveIndex where
  "empty_index = \<lparr>move_to_id = Map.empty, id_to_move = Map.empty, next_id = 0\<rparr>"

definition MoveIndex_init :: "pyerror + MoveIndex" where
  "MoveIndex_init = generate_all_moves empty_index"

text \<open>
  The module's global \<open>move_index = MoveIndex()\<close>. The construction does not raise
  (lemma \<open>MoveIndex_init_move_index\<close> below), so the second branch is never taken.
\<close>

definition move_index :: MoveIndex where
  "move_index = (case MoveIndex_init of Inr self \<Rightarrow> self | Inl e \<Rightarrow> empty_index)"

definition to_id :: "MoveIndex \<Rightarrow> move \<Rightarrow> pyerror + int" where
  "to_id self m =
     (case move_to_string (from_square m) (to_square m) (promotion m) of
        Inl e \<Rightarrow> Inl e
      | Inr move_str \<Rightarrow> Inr (case move_to_id self move_str of None \<Rightarrow> - 1 | Some i \<Rightarrow> i))"

text \<open>The parsing part of \<open>from_id\<close>; \<open>None\<close> is the early \<open>return None\<close>.\<close>

definition parse_move_str :: "string \<Rightarrow> pyerror + move option" where
  "parse_move_str move_str =
     (if length move_str = 4 then
        (case parse_square (take 2 move_str) of
           Inl e \<Rightarrow> Inl e
         | Inr from_sq \<Rightarrow>
             (case parse_square (drop 2 move_str) of
                Inl e \<Rightarrow> Inl e
              | Inr to_sq \<Rightarrow> Inr (Some (Move from_sq to_sq None))))
      else if length move_str = 5 then
        (case parse_square (take 2 move_str) of
           Inl e \<Rightarrow> Inl e
         | Inr from_sq \<Rightarrow>
             (case parse_square (take 2 (drop 2 move_str)) of
                Inl e \<Rightarrow> Inl e
              | Inr to_sq \<Rightarrow>
                  (case piece_of_symbol (char_lower (move_str ! 4)) of
                     Inl e \<Rightarrow> Inl e
                   | Inr promo \<Rightarrow> Inr (Some (Move from_sq to_sq (Some promo))))))
      else Inr None)"

definition from_id :: "'b chess_lib \<Rightarrow> MoveIndex \<Rightarrow> int \<Rightarrow> 'b \<Rightarrow> pyerror + move option" where
  "from_id L self move_id board =
     (case id_to_move self move_id of
        None \<Rightarrow> Inr None
      | Some move_str \<Rightarrow>
          (case parse_move_str move_str of
             Inl e \<Rightarrow> Inl e
           | Inr None \<Rightarrow> Inr None
           | Inr (Some m) \<Rightarrow>
               if is_legal L board m then Inr (Some m) else Inr None))"

definition action_space_size :: "MoveIndex \<Rightarrow> int" where
  "action_space_size self = next_id self"

text \<open>
  The loop body of \<open>get_legal_move_mask\<close>; \<open>mask[move_id] = True\<close> raises IndexError
  beyond the end of the list.
\<close>

definition mark_legal :: "MoveIndex \<Rightarrow> move \<Rightarrow> bool list \<Rightarrow> pyerror + bool list" where
  "mark_legal self m mask_list =
     (case to_id self m of
        Inl e \<Rightarrow> Inl e
      | Inr move_id \<Rightarrow>
          if move_id \<ge> 0
          then (if nat move_id < length mask_list then Inr (mask_list[nat move_id := True])
                else Inl IndexError)
          else Inr mask_list)"

definition get_legal_move_mask :: "'b chess_lib \<Rightarrow> MoveIndex \<Rightarrow> 'b \<Rightarrow> pyerror + bool list" where
  "get_legal_move_mask L self board =
     for_each (mark_legal self) (legal_moves L board)
       (replicate (nat (action_space_size self)) False)"

text \<open>
  What the library guarantees of the legal moves of a standard chess position: no move
  is generated twice, origin and destination are distinct squares of the board, a
  promotion is to a queen, rook, bishop or knight, and nothing is dropped.
\<close>

definition valid_shape :: "nat \<Rightarrow> nat \<Rightarrow> piece_type option \<Rightarrow> bool" where
  "valid_shape f t p = (f < 64 \<and> t < 64 \<and> f \<noteq> t \<and> p \<in> set PROMOTION_CHOICES)"

definition legal_moves_wf :: "'b chess_lib \<Rightarrow> 'b \<Rightarrow> bool" where
  "legal_moves_wf L board =
     (distinct (legal_moves L board) \<and>
      list_all (\<lambda>m. valid_shape (from_square m) (to_square m) (promotion m) \<and>
                    drop_piece m = None) (legal_moves L board))"


subsection \<open>Notions used to state the index's properties\<close>

text \<open>
  The string that \<open>_move_to_string\<close> builds for squares on the board, the set of strings
  that \<open>_generate_all_moves\<close> registers, and the consistency of the two dictionaries and
  the counter: they are inverse to each other, the ids in use are exactly
  \<open>0 .. next_id - 1\<close>, and the registered strings are the set \<open>D\<close>.
\<close>

definition shape_string :: "nat \<Rightarrow> nat \<Rightarrow> piece_type option \<Rightarrow> string" where
  "shape_string f t p =
     SQUARE_NAMES ! f @ SQUARE_NAMES ! t @
       (case p of None \<Rightarrow> [] | Some pt \<Rightarrow> [char_upper (piece_symbol pt)])"

definition index_ok :: "MoveIndex \<Rightarrow> string set \<Rightarrow> bool" where
  "index_ok self D =
     ((\<forall>s i. move_to_id self s = Some i \<longleftrightarrow> id_to_move self i = Some s) \<and>
      (\<forall>i. id_to_move self i = None \<longleftrightarrow> \<not> (0 \<le> i \<and> i < next_id self)) \<and>
      0 \<le> next_id self \<and>
      (\<forall>s. move_to_id self s = None \<longleftrightarrow> s \<notin> D))"

definition registered_strings :: "string set" where
  "registered_strings = {shape_string f t p | f t p. valid_shape f t p}"


text \<open>
  The position of the repository's promotion test, \<open>8/4P3/8/8/8/8/8/8 w - - 0 1\<close>: a
  white pawn on e7 whose four legal moves are the promotions on e8.
\<close>

definition promotion_board :: toy_board where
  "promotion_board =
     ToyBoard ''8/4P3/8/8/8/8/8/8 w - - 0 1'' [(52, \<lparr>piece_type = PAWN, color = True\<rparr>)] True
       [(Move 52 60 (Some QUEEN), ToyBoard ''4Q3/8/8/8/8/8/8/8 b - - 0 1'' [(60, \<lparr>piece_type = QUEEN, color = True\<rparr>)] False [] 1 False),
        (Move 52 60 (Some ROOK), ToyBoard ''4R3/8/8/8/8/8/8/8 b - - 0 1'' [(60, \<lparr>piece_type = ROOK, color = True\<rparr>)] False [] 1 False),
        (Move 52 60 (Some BISHOP), ToyBoard ''4B3/8/8/8/8/8/8/8 b - - 0 1'' [(60, \<lparr>piece_type = BISHOP, color = True\<rparr>)] False [] 1 False),
        (Move 52 60 (Some KNIGHT), ToyBoard ''4N3/8/8/8/8/8/8/8 b - - 0 1'' [(60, \<lparr>piece_type = KNIGHT, color = True\<rparr>)] False [] 1 False)]
       0 False"

section \<open>Alpha-beta search (engine/search\_alphabeta.py)\<close>

subsection \<open>Floats with infinities\<close>

text \<open>
  The search starts from \<open>float('-inf')\<close> and \<open>float('inf')\<close>; every other score is a
  finite float, modelled by a real. Python's \<open>max(a, b)\<close> returns \<open>b\<close> only when
  \<open>b > a\<close>, and \<open>min(a, b)\<close> returns \<open>b\<close> only when \<open>b < a\<close>.
\<close>

datatype pyfloat = NegInf | Fin real | PosInf

fun fneg :: "pyfloat \<Rightarrow> pyfloat" where
  "fneg NegInf = PosInf"
| "fneg (Fin x) = Fin (- x)"
| "fneg PosInf = NegInf"

fun flt :: "pyfloat \<Rightarrow> pyfloat \<Rightarrow> bool" where
  "flt NegInf NegInf = False"
| "flt NegInf b = True"
| "flt (Fin x) (Fin y) = (x < y)"
| "flt (Fin x) PosInf = True"
| "flt (Fin x) NegInf = False"
| "flt PosInf b = False"

definition fle :: "pyfloat \<Rightarrow> pyfloat \<Rightarrow> bool" where
  "fle a b = (a = b \<or> flt a b)"

definition fgt :: "pyfloat \<Rightarrow> pyfloat \<Rightarrow> bool" where
  "fgt a b = flt b a"

definition fge :: "pyfloat \<Rightarrow> pyfloat \<Rightarrow> bool" where
  "fge a b = fle b a"

definition py_max :: "pyfloat \<Rightarrow> pyfloat \<Rightarrow> pyfloat" where
  "py_max a b = (if fgt b a then b else a)"

definition py_min :: "pyfloat \<Rightarrow> pyfloat \<Rightarrow> pyfloat" where
  "py_min a b = (if flt b a then b else a)"

subsection \<open>The searcher's state and its environment\<close>

datatype tt_type = Exact | Lower | Upper

record tt_entry =
  tt_value :: pyfloat
  tt_depth :: int
  tt_kind :: tt_type
  tt_move :: "move option"

text \<open>
  The fields of \<open>AlphaBetaSearch\<close> that the search mutates. \<open>time_reads\<close> counts the
  calls of \<open>time.time()\<close> made so far; the \<open>k\<close>-th call returns \<open>clock k\<close> of the
  environment.
\<close>

record ab_state =
  nodes_searched :: int
  transposition_table :: "string \<rightharpoonup> tt_entry"
  killer_moves :: "nat \<rightharpoonup> move list"
  history_table :: "move \<rightharpoonup> int"
  time_reads :: nat

text \<open>
  What the search is given: the chess library, the evaluator (a function that may raise;
  only the first component of its result is used) and the clock.
\<close>

record 'b search_env =
  lib :: "'b chess_lib"
  evaluator :: "'b \<Rightarrow> pyerror + (real \<times> int)"
  clock :: "nat \<Rightarrow> real"

definition AlphaBetaSearch_init :: ab_state where
  "AlphaBetaSearch_init =
     \<lparr>nodes_searched = 0, transposition_table = Map.empty, killer_moves = Map.empty,
      history_table = Map.empty, time_reads = 0\<rparr>"

text \<open>One call of \<open>time.time()\<close>: the reading and the state with the counter advanced.\<close>

definition time_time :: "'b search_env \<Rightarrow> ab_state \<Rightarrow> real \<times> ab_state" where
  "time_time E st = (clock E (time_reads st), st\<lparr>time_reads := Suc (time_reads st)\<rparr>)"

text \<open>\<open>self.evaluator(board)[0]\<close>\<close>

definition evaluate0 :: "'b search_env \<Rightarrow> 'b \<Rightarrow> pyerror + pyfloat" where
  "evaluate0 E board = (case evaluator E board of Inl e \<Rightarrow> Inl e | Inr v \<Rightarrow> Inr (Fin (fst v)))"

subsection \<open>Move ordering\<close>

text \<open>\<open>_piece_value\<close>: \<open>values.get(piece_type, 0)\<close>; every piece type is in the table.\<close>

definition piece_value :: "piece_type \<Rightarrow> int" where
  "piece_value pt = piece_values pt"

definition move_priority :: "'b search_env \<Rightarrow> ab_state \<Rightarrow> 'b \<Rightarrow> move \<Rightarrow> int" where
  "move_priority E st board move =
     (let priority = 0;
          priority = (if is_capture (lib E) board move
                      then (case (piece_at (lib E) board (to_square move),
                                  piece_at (lib E) board (from_square move)) of
                              (Some captured_piece, Some capturing_piece) \<Rightarrow>
                                (let victim_value = piece_value (piece_type captured_piece);
                                     attacker_value = piece_value (piece_type capturing_piece)
                                 in priority + (1000 + victim_value - attacker_value))
                            | _ \<Rightarrow> priority)
                      else priority);
          priority = (if promotion move \<noteq> None then priority + 900 else priority);
          depth = ply (lib E) board;
          priority = (case killer_moves st depth of
                        Some ks \<Rightarrow> if move \<in> set ks then priority + 800 else priority
                      | None \<Rightarrow> priority);
          priority = priority + (case history_table st move of Some h \<Rightarrow> h | None \<Rightarrow> 0)
      in priority)"

text \<open>
  \<open>sorted(moves, key=move_priority, reverse=True)\<close>: a stable sort by descending
  priority, that is, a stable ascending sort by the negated priority.
\<close>

definition order_moves :: "'b search_env \<Rightarrow> ab_state \<Rightarrow> 'b \<Rightarrow> move list \<Rightarrow> move list" where
  "order_moves E st board moves = sort_key (\<lambda>m. - move_priority E st board m) moves"

subsection \<open>Killer moves\<close>

definition store_killer_move :: "ab_state \<Rightarrow> move \<Rightarrow> nat \<Rightarrow> ab_state" where
  "store_killer_move st move depth =
     (let ks = (case killer_moves st depth of None \<Rightarrow> [] | Some ks \<Rightarrow> ks)
      in if move \<notin> set ks
         then (let ks' = move # ks;
                   ks'' = (if length ks' > 2 then butlast ks' else ks')
               in st\<lparr>killer_moves := (killer_moves st)(depth \<mapsto> ks'')\<rparr>)
         else st\<lparr>killer_moves := (killer_moves st)(depth \<mapsto> ks)\<rparr>)"

subsection \<open>Quiescence search\<close>

function quiescence_search ::
    "'b search_env \<Rightarrow> ab_state \<Rightarrow> 'b \<Rightarrow> pyfloat \<Rightarrow> pyfloat \<Rightarrow> int \<Rightarrow> int \<Rightarrow> pyerror + pyfloat"
  and quiescence_loop ::
    "'b search_env \<Rightarrow> ab_state \<Rightarrow> 'b \<Rightarrow> pyfloat \<Rightarrow> pyfloat \<Rightarrow> int \<Rightarrow> int \<Rightarrow> move list
      \<Rightarrow> pyerror + pyfloat"
where
  "quiescence_search E st board alpha beta depth max_depth =
     (if depth \<ge> max_depth then evaluate0 E board
      else
        (case evaluate0 E board of
           Inl e \<Rightarrow> Inl e
         | Inr stand_pat \<Rightarrow>
             if fge stand_pat beta then Inr beta
             else
               (let alpha' = (if fgt stand_pat alpha then stand_pat else alpha);
                    captures = filter (is_capture (lib E) board) (legal_moves (lib E) board);
                    captures' = order_moves E st board captures
                in quiescence_loop E st board alpha' beta depth max_depth captures')))"
| "quiescence_loop E st board alpha beta depth max_depth [] = Inr alpha"
| "quiescence_loop E st board alpha beta depth max_depth (move # rest) =
     (case quiescence_search E st (push (lib E) board move) (fneg beta) (fneg alpha)
             (depth + 1) max_depth of
        Inl e \<Rightarrow> Inl e
      | Inr s \<Rightarrow>
          (let score = fneg s
           in if fge score beta then Inr beta
              else quiescence_loop E st board (if fgt score alpha then score else alpha) beta
                     depth max_depth rest))"
  by pat_completeness auto
termination
  by (relation "inv_image (less_than <*lex*> less_than)
        (\<lambda>x. case x of
           Inl (E, st, board, alpha, beta, depth, max_depth) \<Rightarrow>
             (if depth \<ge> max_depth then 0 else 2 * nat (max_depth - depth) + 2, 0)
         | Inr (E, st, board, alpha, beta, depth, max_depth, moves) \<Rightarrow>
             (2 * nat (max_depth - depth) + 1, length moves))")
     auto

subsection \<open>The recursive search\<close>

text \<open>
  The first two statements of \<open>_alpha_beta\<close>: count the node and read the clock.
\<close>

definition enter_node :: "'b search_env \<Rightarrow> ab_state \<Rightarrow> real \<times> ab_state" where
  "enter_node E st0 = time_time E (st0\<lparr>nodes_searched := nodes_searched st0 + 1\<rparr>)"

text \<open>
  The transposition-table lookup. \<open>Inl v\<close> is the early \<open>return entry['value']\<close>;
  \<open>Inr (alpha, beta)\<close> is the window the search goes on with. The test
  \<open>alpha >= beta\<close> is made only for an entry that is deep enough.
\<close>

definition tt_probe ::
    "ab_state \<Rightarrow> string \<Rightarrow> int \<Rightarrow> pyfloat \<Rightarrow> pyfloat \<Rightarrow> pyfloat + pyfloat \<times> pyfloat" where
  "tt_probe st fen_key depth alpha beta =
     (case transposition_table st fen_key of
        None \<Rightarrow> Inr (alpha, beta)
      | Some entry \<Rightarrow>
          if tt_depth entry \<ge> depth then
            (if tt_kind entry = Exact then Inl (tt_value entry)
             else
               (let alpha' = (if tt_kind entry = Lower
                              then py_max alpha (tt_value entry) else alpha);
                    beta' = (if tt_kind entry = Upper
                             then py_min beta (tt_value entry) else beta)
                in if fge alpha' beta' then Inl (tt_value entry)
                   else Inr (alpha', beta')))
          else Inr (alpha, beta))"

text \<open>The store into the transposition table after the loop over the moves.\<close>

definition tt_record ::
    "ab_state \<Rightarrow> string \<Rightarrow> int \<Rightarrow> pyfloat \<Rightarrow> move option \<Rightarrow> pyfloat \<Rightarrow> pyfloat \<Rightarrow> ab_state" where
  "tt_record st fen_key depth best_value best_move original_alpha beta =
     (let kind = (if fle best_value original_alpha then Upper
                  else if fge best_value beta then Lower
                  else Exact);
          entry = \<lparr>tt_value = best_value, tt_depth = depth, tt_kind = kind,
                   tt_move = best_move\<rparr>
      in st\<lparr>transposition_table := (transposition_table st)(fen_key \<mapsto> entry)\<rparr>)"

text \<open>
  \<open>_alpha_beta\<close> returns its score, or the exception it raised, together with the state
  as mutated up to that point. \<open>alpha_beta_loop\<close> is the loop over the ordered moves; it
  carries \<open>alpha\<close>, \<open>best_value\<close> and \<open>best_move\<close> and returns the last two. On a beta
  cutoff the loop stores the killer move and ends (\<open>break\<close>).
\<close>

function alpha_beta ::
    "'b search_env \<Rightarrow> 'b \<Rightarrow> int \<Rightarrow> pyfloat \<Rightarrow> pyfloat \<Rightarrow> int \<Rightarrow> real \<Rightarrow> real \<Rightarrow> ab_state
      \<Rightarrow> (pyerror + pyfloat) \<times> ab_state"
  and alpha_beta_loop ::
    "'b search_env \<Rightarrow> 'b \<Rightarrow> int \<Rightarrow> pyfloat \<Rightarrow> pyfloat \<Rightarrow> int \<Rightarrow> real \<Rightarrow> real \<Rightarrow> move list
      \<Rightarrow> pyfloat \<Rightarrow> move option \<Rightarrow> ab_state
      \<Rightarrow> (pyerror + pyfloat \<times> move option) \<times> ab_state"
where
  "alpha_beta E board depth alpha beta max_depth t_start max_time st0 =
     (case enter_node E st0 of
        (now, st) \<Rightarrow>
          if now - t_start \<ge> max_time then (evaluate0 E board, st)
          else if is_checkmate (lib E) board
            then (Inr (if turn (lib E) board then Fin (- 1000) else Fin 1000), st)
          else if is_stalemate (lib E) board \<or> is_insufficient_material (lib E) board
            then (Inr (Fin 0.0), st)
          else if depth \<ge> max_depth then (quiescence_search E st board alpha beta 0 3, st)
          else
            (case tt_probe st (fen (lib E) board) depth alpha beta of
               Inl v \<Rightarrow> (Inr v, st)
             | Inr window \<Rightarrow>
                 if legal_moves (lib E) board = [] then (evaluate0 E board, st)
                 else
                   (case alpha_beta_loop E board depth (fst window) (snd window) max_depth
                           t_start max_time
                           (order_moves E st board (legal_moves (lib E) board))
                           NegInf None st of
                      (Inl e, st') \<Rightarrow> (Inl e, st')
                    | (Inr best, st') \<Rightarrow>
                        (Inr (fst best),
                         tt_record st' (fen (lib E) board) depth (fst best) (snd best)
                           (fst window) (snd window)))))"
| "alpha_beta_loop E board depth alpha beta max_depth t_start max_time [] best_value
       best_move st = (Inr (best_value, best_move), st)"
| "alpha_beta_loop E board depth alpha beta max_depth t_start max_time (move # rest)
       best_value best_move st =
     (case alpha_beta E (push (lib E) board move) (depth + 1) (fneg beta) (fneg alpha)
             max_depth t_start max_time st of
        (Inl e, st') \<Rightarrow> (Inl e, st')
      | (Inr v, st') \<Rightarrow>
          (let val = fneg v;
               best_value' = (if fgt val best_value then val else best_value);
               best_move' = (if fgt val best_value then Some move else best_move)
           in if fge val beta
              then (Inr (best_value', best_move'),
                    store_killer_move st' move (ply (lib E) board))
              else alpha_beta_loop E board depth (if fgt val alpha then val else alpha) beta
                     max_depth t_start max_time rest best_value' best_move' st'))"
  by pat_completeness auto
termination
  by (relation "inv_image (less_than <*lex*> less_than)
        (\<lambda>x. case x of
           Inl (E, board, depth, alpha, beta, max_depth, t_start, max_time, st) \<Rightarrow>
             (if depth \<ge> max_depth then 0 else 2 * nat (max_depth - depth) + 2, 0)
         | Inr (E, board, depth, alpha, beta, max_depth, t_start, max_time, moves,
                best_value, best_move, st) \<Rightarrow>
             (2 * nat (max_depth - depth) + 1, length moves))")
     auto

subsection \<open>Iterative deepening\<close>

record search_result =
  bestmove :: "move option"
  pv :: "move list"
  best_val :: pyfloat
  centipawns :: int
  nodes :: int
  depth_done :: int

text \<open>
  \<open>value_to_centipawns\<close> on the search's score: \<open>int\<close> of an infinite float raises
  OverflowError.
\<close>

definition score_to_centipawns :: "pyfloat \<Rightarrow> pyerror + int" where
  "score_to_centipawns v =
     (case v of Fin x \<Rightarrow> Inr (value_to_centipawns x) | _ \<Rightarrow> Inl OverflowError)"

text \<open>
  The loop \<open>for depth in range(1, max_depth + 1)\<close> over the remaining depths. It carries
  \<open>best_value\<close> and the last value bound to \<open>depth\<close> (\<open>None\<close> while the loop variable
  is unbound). \<open>best_move\<close> and \<open>principal_variation\<close> are never assigned in the
  loop: they keep the values they were initialised with.
\<close>

fun deepening_loop ::
    "'b search_env \<Rightarrow> 'b \<Rightarrow> real \<Rightarrow> real \<Rightarrow> int list \<Rightarrow> pyfloat \<Rightarrow> int option \<Rightarrow> ab_state
      \<Rightarrow> pyfloat \<times> int option \<times> ab_state"
where
  "deepening_loop E board t_start max_time [] best_value last_depth st =
     (best_value, last_depth, st)"
| "deepening_loop E board t_start max_time (depth # rest) best_value last_depth st =
     (let (now, st1) = time_time E st
      in if now - t_start \<ge> max_time then (best_value, Some depth, st1)
         else
           (case alpha_beta E board 0 NegInf PosInf depth t_start max_time st1 of
              (Inl e, st2) \<Rightarrow> (best_value, Some depth, st2)
            | (Inr val, st2) \<Rightarrow>
                deepening_loop E board t_start max_time rest
                  (if fgt val best_value then val else best_value) (Some depth) st2))"

definition search ::
    "'b search_env \<Rightarrow> 'b \<Rightarrow> real \<Rightarrow> int \<Rightarrow> ab_state \<Rightarrow> (pyerror + search_result) \<times> ab_state"
where
  "search E board max_time max_depth st0 =
     (let st1 = st0\<lparr>nodes_searched := 0\<rparr>;
          (t_start, st2) = time_time E st1;
          best_move = None;
          principal_variation = [];
          (best_value, last_depth, st3) =
             deepening_loop E board t_start max_time [1..max_depth] NegInf None st2
      in case score_to_centipawns best_value of
           Inl e \<Rightarrow> (Inl e, st3)
         | Inr cp \<Rightarrow>
             (case last_depth of
                None \<Rightarrow> (Inl UnboundLocalError, st3)
              | Some depth \<Rightarrow>
                  (Inr \<lparr>bestmove = best_move, pv = principal_variation, best_val = best_value,
                        centipawns = cp, nodes = nodes_searched st3, depth_done = depth - 1\<rparr>,
                   st3)))"

text \<open>\<open>best_move_alphabeta\<close>: a fresh searcher, and the \<open>bestmove\<close> entry of its result.\<close>

definition best_move_alphabeta ::
    "'b search_env \<Rightarrow> 'b \<Rightarrow> real \<Rightarrow> int \<Rightarrow> pyerror + move option"
where
  "best_move_alphabeta E board time_limit_s max_depth =
     (case fst (search E board time_limit_s max_depth AlphaBetaSearch_init) of
        Inl e \<Rightarrow> Inl e
      | Inr result \<Rightarrow> Inr (bestmove result))"

subsection \<open>Notions used to state the search's properties\<close>

text \<open>
  Every ply stores at most two killer moves; and the relation between the state before
  and after a piece of the search that the proofs carry along: the history table is the
  same and a bounded killer table stays bounded.
\<close>

definition killers_bounded :: "ab_state \<Rightarrow> bool" where
  "killers_bounded st = (\<forall>d ks. killer_moves st d = Some ks \<longrightarrow> length ks \<le> 2)"

definition ab_inv :: "ab_state \<Rightarrow> ab_state \<Rightarrow> bool" where
  "ab_inv st st' =
     (history_table st' = history_table st \<and> (killers_bounded st \<longrightarrow> killers_bounded st'))"

text \<open>
  A concrete environment: the small boards, the material evaluator and a clock that
  stands still, so that no time limit is ever reached.
\<close>

definition toy_env :: "toy_board search_env" where
  "toy_env = \<lparr>lib = toy_lib, evaluator = (\<lambda>b. Inr (evaluate_position toy_lib b)),
              clock = (\<lambda>k. 0)\<rparr>"

text \<open>
  A position with a refutation: after White's first move the game is drawn at once
  (stalemate); after the second, Black's only reply is a capture that mates. Searching
  the root to depth 2, the reply cuts off at ply 1.
\<close>

definition cut_capture :: move where
  "cut_capture = Move 8 0 None"

definition cut_mated :: toy_board where
  "cut_mated = ToyBoard ''mated'' [(0, \<lparr>piece_type = QUEEN, color = False\<rparr>)] True [] 2 True"

definition cut_reply :: toy_board where
  "cut_reply =
     ToyBoard ''reply'' [(8, \<lparr>piece_type = QUEEN, color = False\<rparr>),
                         (0, \<lparr>piece_type = ROOK, color = True\<rparr>)] False
       [(cut_capture, cut_mated)] 1 False"

definition cut_drawn :: toy_board where
  "cut_drawn = ToyBoard ''drawn'' [] False [] 1 False"

definition cut_root :: toy_board where
  "cut_root =
     ToyBoard ''root'' [(1, \<lparr>piece_type = ROOK, color = True\<rparr>),
                        (8, \<lparr>piece_type = QUEEN, color = False\<rparr>)] True
       [(Move 1 2 None, cut_drawn), (Move 1 0 None, cut_reply)] 0 False"

section \<open>Monte Carlo tree search (engine/search\_mcts.py)\<close>

subsection \<open>Nodes\<close>

text \<open>
  The tree is a graph of mutable \<open>MCTSNode\<close> objects that point to their parent and to
  their children. The model keeps the objects in a store, a list indexed by the object's
  address; creating a node appends it to the store.
\<close>

record 'b MCTSNode =
  board :: 'b
  parent :: "nat option"
  move :: "move option"
  children :: "nat list"
  visits :: int
  value_sum :: real
  prior :: real
  is_expanded :: bool

text \<open>
  Python's \<open>max(xs, key=k)\<close> on a non-empty list keeps the first element whose key is
  largest: a later element replaces the running best only when its key is strictly
  greater.
\<close>

fun py_max_from :: "('a \<Rightarrow> int) \<Rightarrow> 'a \<Rightarrow> 'a list \<Rightarrow> 'a" where
  "py_max_from key best [] = best"
| "py_max_from key best (x # xs) = py_max_from key (if key x > key best then x else best) xs"

text \<open>
  \<open>get_best_move(root, temperature)\<close>. In the sampling branch the index comes from
  \<open>np.random.choice\<close>, whose probabilities are computed from the visit counts and the
  temperature; the model takes the drawn index from a parameter \<open>sample\<close> (which may
  raise, as numpy does on ill-formed probabilities).
\<close>

definition get_best_move ::
  "(int list \<Rightarrow> real \<Rightarrow> pyerror + nat) \<Rightarrow> 'b MCTSNode list \<Rightarrow> nat \<Rightarrow> real \<Rightarrow> pyerror + move option"
where
  "get_best_move sample store root_node temperature =
     (case children (store ! root_node) of
        [] \<Rightarrow> Inr None
      | c # cs \<Rightarrow>
          if temperature = 0.0 then
            (let best_child = py_max_from (\<lambda>c. visits (store ! c)) c cs
             in Inr (move (store ! best_child)))
          else
            (let vs = map (\<lambda>c. visits (store ! c)) (c # cs)
             in if sum_list vs = 0 then Inr (move (store ! c))
                else (case sample vs temperature of
                        Inl e \<Rightarrow> Inl e
                      | Inr idx \<Rightarrow>
                          if idx < length (c # cs) then Inr (move (store ! ((c # cs) ! idx)))
                          else Inl IndexError)))"

text \<open>
  A root with three children visited 2, 5 and 5 times: the two most-visited children tie
  and the earlier one, the rook promotion, is selected.
\<close>

definition tie_store :: "toy_board MCTSNode list" where
  "tie_store =
     [\<lparr>board = promotion_board, parent = None, move = None, children = [1, 2, 3],
        visits = 12, value_sum = 0, prior = 0, is_expanded = True\<rparr>,
      \<lparr>board = promotion_board, parent = Some 0, move = Some (Move 52 60 (Some QUEEN)),
        children = [], visits = 2, value_sum = 0, prior = 0.2, is_expanded = False\<rparr>,
      \<lparr>board = promotion_board, parent = Some 0, move = Some (Move 52 60 (Some ROOK)),
        children = [], visits = 5, value_sum = 0, prior = 0.4, is_expanded = False\<rparr>,
      \<lparr>board = promotion_board, parent = Some 0, move = Some (Move 52 60 (Some BISHOP)),
        children = [], visits = 5, value_sum = 0, prior = 0.4, is_expanded = False\<rparr>]"


subsection \<open>The search's state and environment\<close>

text \<open>
  \<open>value\<close> and \<open>is_leaf\<close> of a node.
\<close>

definition node_value :: "'b MCTSNode \<Rightarrow> real" where
  "node_value n = (if visits n = 0 then 0.0 else value_sum n / real_of_int (visits n))"

definition is_leaf :: "'b MCTSNode \<Rightarrow> bool" where
  "is_leaf n = (\<not> is_expanded n \<or> length (children n) = 0)"

text \<open>
  What the search is given besides the position: the chess library, the network (its
  \<open>predict_policy_value\<close> may raise and, like every source of randomness, may answer
  differently each time, so it is indexed by the number of the external event), numpy's
  and Python's random generators, and the clock. The state is the store of nodes and the
  number of external events consumed so far.
\<close>

record 'b mcts_env =
  chess :: "'b chess_lib"
  network :: "nat \<Rightarrow> 'b \<Rightarrow> pyerror + (real list \<times> real)"
  np_random :: "nat \<Rightarrow> nat \<Rightarrow> real list"
  random_choice :: "nat \<Rightarrow> nat \<Rightarrow> nat"
  time_now :: "nat \<Rightarrow> real"
  c_puct :: real

record 'b mcts_state =
  store :: "'b MCTSNode list"
  events :: nat

subsection \<open>Selection\<close>

text \<open>The score of one child in \<open>_select_child\<close>.\<close>

definition child_score :: "'b mcts_env \<Rightarrow> 'b MCTSNode list \<Rightarrow> nat \<Rightarrow> nat \<Rightarrow> real" where
  "child_score E s node child =
     (if visits (s ! child) = 0 then prior (s ! child)
      else
        (let exploitation = node_value (s ! child);
             exploration = c_puct E * prior (s ! child) * sqrt (real_of_int (visits (s ! node)))
                             / real_of_int (1 + visits (s ! child))
         in exploitation + exploration))"

fun select_loop :: "(nat \<Rightarrow> real) \<Rightarrow> nat list \<Rightarrow> nat option \<Rightarrow> pyfloat \<Rightarrow> nat option" where
  "select_loop score [] best_child best_score = best_child"
| "select_loop score (child # rest) best_child best_score =
     (if fgt (Fin (score child)) best_score
      then select_loop score rest (Some child) (Fin (score child))
      else select_loop score rest best_child best_score)"

definition select_child :: "'b mcts_env \<Rightarrow> 'b MCTSNode list \<Rightarrow> nat \<Rightarrow> nat" where
  "select_child E s node =
     (case children (s ! node) of
        [] \<Rightarrow> node
      | first_child # rest \<Rightarrow>
          (case select_loop (child_score E s node) (first_child # rest) None NegInf of
             Some best_child \<Rightarrow> best_child
           | None \<Rightarrow> first_child))"

text \<open>
  The selection phase: \<open>while not node.is_leaf(): node = self._select_child(node)\<close>.
  The loop follows pointers, so it returns only if it reaches a leaf.
\<close>

partial_function (option) descend :: "'b mcts_env \<Rightarrow> 'b MCTSNode list \<Rightarrow> nat \<Rightarrow> nat option" where
  "descend E s node =
     (if \<not> is_leaf (s ! node) then descend E s (select_child E s node) else Some node)"

subsection \<open>Expansion\<close>

text \<open>
  \<open>np.array(policy) * legal_mask\<close>: the element-wise product of a float array and a list
  of booleans, with numpy's broadcasting of a one-element operand; other length
  mismatches raise ValueError.
\<close>

definition mask_policy :: "real list \<Rightarrow> bool list \<Rightarrow> pyerror + real list" where
  "mask_policy policy legal_mask =
     (if length policy = length legal_mask
      then Inr (map (\<lambda>(p, b). if b then p else 0) (zip policy legal_mask))
      else if length policy = 1
      then Inr (map (\<lambda>b. if b then hd policy else 0) legal_mask)
      else if length legal_mask = 1
      then Inr (map (\<lambda>p. if hd legal_mask then p else 0) policy)
      else Inl ValueError)"

text \<open>
  The normalisation. \<open>legal_mask\<close> is the Python list that \<open>get_legal_move_mask\<close>
  returns, so \<open>legal_mask.sum()\<close> in the \<open>else\<close> branch raises AttributeError.
\<close>

definition normalize_policy :: "real list \<Rightarrow> bool list \<Rightarrow> pyerror + real list" where
  "normalize_policy legal_policy legal_mask =
     (if sum_list legal_policy > 0
      then Inr (map (\<lambda>p. p / sum_list legal_policy) legal_policy)
      else Inl AttributeError)"

text \<open>The body of the loop that creates the children: one legal move.\<close>

definition add_child ::
    "'b mcts_env \<Rightarrow> nat \<Rightarrow> real list \<Rightarrow> move \<Rightarrow> 'b MCTSNode list \<Rightarrow> pyerror + 'b MCTSNode list"
where
  "add_child E node legal_policy mv s =
     (case to_id move_index mv of
        Inl e \<Rightarrow> Inl e
      | Inr move_id \<Rightarrow>
          if move_id \<ge> 0 then
            (if nat move_id < length legal_policy then
               (let child = \<lparr>board = push (chess E) (board (s ! node)) mv, parent = Some node,
                             move = Some mv, children = [], visits = 0, value_sum = 0.0,
                             prior = legal_policy ! nat move_id, is_expanded = False\<rparr>;
                    s' = s @ [child]
                in Inr (s'[node := (s' ! node)\<lparr>children := children (s' ! node) @ [length s]\<rparr>]))
             else Inl IndexError)
          else Inr s)"

definition expand_node :: "'b mcts_env \<Rightarrow> nat \<Rightarrow> 'b mcts_state \<Rightarrow> pyerror + 'b mcts_state" where
  "expand_node E node st =
     (let s = store st; n = s ! node
      in if is_expanded n \<or> is_game_over (chess E) (board n) then Inr st
         else if legal_moves (chess E) (board n) = []
         then Inr (st\<lparr>store := s[node := n\<lparr>is_expanded := True\<rparr>]\<rparr>)
         else
           (let policy = (case network E (events st) (board n) of
                            Inl e \<Rightarrow> np_random E (events st) (nat (action_space_size move_index))
                          | Inr out \<Rightarrow> fst out);
                st1 = st\<lparr>events := Suc (events st)\<rparr>
            in case get_legal_move_mask (chess E) move_index (board n) of
                 Inl e \<Rightarrow> Inl e
               | Inr legal_mask \<Rightarrow>
                   (case mask_policy policy legal_mask of
                      Inl e \<Rightarrow> Inl e
                    | Inr masked \<Rightarrow>
                        (case normalize_policy masked legal_mask of
                           Inl e \<Rightarrow> Inl e
                         | Inr legal_policy \<Rightarrow>
                             (case for_each (add_child E node legal_policy)
                                     (legal_moves (chess E) (board n)) s of
                                Inl e \<Rightarrow> Inl e
                              | Inr s' \<Rightarrow>
                                  Inr (st1\<lparr>store :=
                                         s'[node := (s' ! node)\<lparr>is_expanded := True\<rparr>]\<rparr>))))))"

subsection \<open>Backup and simulation\<close>

text \<open>
  \<open>_backup\<close>: \<open>while current is not None\<close>, following the parent pointers.
\<close>

partial_function (option) backup ::
    "'b MCTSNode list \<Rightarrow> nat option \<Rightarrow> real \<Rightarrow> 'b MCTSNode list option" where
  "backup s current val =
     (case current of
        None \<Rightarrow> Some s
      | Some n \<Rightarrow>
          backup (s[n := (s ! n)\<lparr>visits := visits (s ! n) + 1,
                                 value_sum := value_sum (s ! n) + val\<rparr>])
            (parent (s ! n)) (- val))"

text \<open>
  The random playout of \<open>_simulate\<close>: at most \<open>max_moves = 50\<close> moves, each drawn by
  \<open>random.choice\<close> (the drawn index is reduced into the range of the list). The first
  argument counts the moves that may still be played.
\<close>

fun playout :: "'b mcts_env \<Rightarrow> nat \<Rightarrow> 'b \<Rightarrow> nat \<Rightarrow> 'b \<times> nat" where
  "playout E 0 b k = (b, k)"
| "playout E (Suc remaining) b k =
     (if is_game_over (chess E) b then (b, k)
      else
        (let legal = legal_moves (chess E) b
         in if legal = [] then (b, k)
            else playout E remaining
                   (push (chess E) b (legal ! (random_choice E k (length legal) mod length legal)))
                   (Suc k)))"

text \<open>The network's value with the \<open>except\<close> branch: 0.0 when the call raises.\<close>

definition network_value :: "'b mcts_env \<Rightarrow> nat \<Rightarrow> 'b \<Rightarrow> real" where
  "network_value E k b = (case network E k b of Inl e \<Rightarrow> 0.0 | Inr out \<Rightarrow> snd out)"

definition simulate :: "'b mcts_env \<Rightarrow> 'b \<Rightarrow> nat \<Rightarrow> real \<times> nat" where
  "simulate E b0 k0 =
     (let (b, k) = playout E 50 b0 k0
      in if is_checkmate (chess E) b then (if turn (chess E) b then - 1.0 else 1.0, k)
         else if is_stalemate (chess E) b \<or> is_insufficient_material (chess E) b then (0.0, k)
         else (network_value E k b, Suc k))"

subsection \<open>The search loop\<close>

text \<open>The simulation phase of one iteration: the value to back up from \<open>node\<close>.\<close>

definition evaluate_leaf :: "'b mcts_env \<Rightarrow> nat \<Rightarrow> 'b mcts_state \<Rightarrow> real \<times> 'b mcts_state" where
  "evaluate_leaf E node st =
     (let n = store st ! node
      in if is_leaf n then
           (if is_game_over (chess E) (board n) then
              (if is_checkmate (chess E) (board n)
               then (if turn (chess E) (board n) then - 1.0 else 1.0, st)
               else (0.0, st))
            else (let (v, k) = simulate E (board n) (events st) in (v, st\<lparr>events := k\<rparr>)))
         else (network_value E (events st) (board n), st\<lparr>events := Suc (events st)\<rparr>))"

text \<open>
  The \<open>while True\<close> loop of \<open>search\<close>. It returns, with the number of completed
  simulations, when the clock or the node budget ends it; \<open>max_nodes\<close> limits the
  search only when it is neither \<open>None\<close> nor 0. An exception of the expansion ends the
  call. The value \<open>None\<close> of the model stands for a call that never returns.
\<close>

partial_function (option) search_loop ::
    "'b mcts_env \<Rightarrow> real \<Rightarrow> int option \<Rightarrow> real \<Rightarrow> nat \<Rightarrow> 'b mcts_state \<Rightarrow> int
      \<Rightarrow> (pyerror + 'b mcts_state \<times> int) option"
where
  "search_loop E max_time max_nodes t_start root_node st searched =
     (let elapsed = time_now E (events st) - t_start;
          st1 = st\<lparr>events := Suc (events st)\<rparr>
      in if elapsed \<ge> max_time then Some (Inr (st1, searched))
         else if (case max_nodes of None \<Rightarrow> False
                  | Some m \<Rightarrow> m \<noteq> 0 \<and> searched \<ge> m)
         then Some (Inr (st1, searched))
         else
           (case descend E (store st1) root_node of
              None \<Rightarrow> None
            | Some node \<Rightarrow>
                (case (if \<not> is_expanded (store st1 ! node) \<and>
                          \<not> is_game_over (chess E) (board (store st1 ! node))
                       then expand_node E node st1 else Inr st1) of
                   Inl e \<Rightarrow> Some (Inl e)
                 | Inr st2 \<Rightarrow>
                     (case backup (store (snd (evaluate_leaf E node st2))) (Some node)
                             (fst (evaluate_leaf E node st2)) of
                        None \<Rightarrow> None
                      | Some s' \<Rightarrow>
                          search_loop E max_time max_nodes t_start root_node
                            ((snd (evaluate_leaf E node st2))\<lparr>store := s'\<rparr>)
                            (searched + 1)))))"

text \<open>
  \<open>search\<close>: create the root (address 0 of a fresh store), expand it, read the clock and
  run the loop. \<open>search_run\<close> returns the final state together with the number of
  completed simulations; \<open>search\<close> returns what the source returns, the tree, whose
  root is node 0.
\<close>

definition new_root :: "'b \<Rightarrow> 'b MCTSNode" where
  "new_root b = \<lparr>board = b, parent = None, move = None, children = [], visits = 0,
                 value_sum = 0.0, prior = 0.0, is_expanded = False\<rparr>"

definition search_run ::
    "'b mcts_env \<Rightarrow> 'b \<Rightarrow> real \<Rightarrow> int option \<Rightarrow> (pyerror + 'b mcts_state \<times> int) option" where
  "search_run E b max_time max_nodes =
     (case expand_node E 0 \<lparr>store = [new_root b], events = 0\<rparr> of
        Inl e \<Rightarrow> Some (Inl e)
      | Inr st \<Rightarrow>
          search_loop E max_time max_nodes (time_now E (events st)) 0
            (st\<lparr>events := Suc (events st)\<rparr>) 0)"

definition mcts_search ::
    "'b mcts_env \<Rightarrow> 'b \<Rightarrow> real \<Rightarrow> int option \<Rightarrow> (pyerror + 'b MCTSNode list) option" where
  "mcts_search E b max_time max_nodes =
     map_option (map_sum id (\<lambda>r. store (fst r))) (search_run E b max_time max_nodes)"

subsection \<open>Notions used to state the search's properties\<close>

text \<open>
  A store is a well-formed tree when node 0 is the root (it has no parent), every other
  node's parent has a smaller address, and the children of a node have larger addresses
  inside the store. \<open>path_up s n ps\<close> says that \<open>ps\<close> is the list of nodes met from
  \<open>n\<close> by following the parent pointers until a node without parent. Two stores have the
  same shape when they have the same nodes with the same pointers.
\<close>

definition wf_tree :: "'b MCTSNode list \<Rightarrow> bool" where
  "wf_tree s =
     (s \<noteq> [] \<and> parent (s ! 0) = None \<and>
      (\<forall>i < length s. 0 < i \<longrightarrow> (\<exists>p < i. parent (s ! i) = Some p)) \<and>
      (\<forall>i < length s. \<forall>c \<in> set (children (s ! i)). i < c \<and> c < length s))"

inductive path_up :: "'b MCTSNode list \<Rightarrow> nat \<Rightarrow> nat list \<Rightarrow> bool" where
  path_root: "parent (s ! n) = None \<Longrightarrow> path_up s n [n]"
| path_step: "parent (s ! n) = Some p \<Longrightarrow> path_up s p ps \<Longrightarrow> path_up s n (n # ps)"

definition same_shape :: "'b MCTSNode list \<Rightarrow> 'b MCTSNode list \<Rightarrow> bool" where
  "same_shape s s' =
     (length s' = length s \<and>
      (\<forall>i < length s. parent (s' ! i) = parent (s ! i) \<and> children (s' ! i) = children (s ! i)))"

text \<open>
  A concrete environment on the small boards: a degenerate network that gives every move
  the policy value 0, and a clock that stands still.
\<close>

definition toy_mcts_env :: "toy_board mcts_env" where
  "toy_mcts_env =
     \<lparr>chess = toy_lib,
      network = (\<lambda>k b. Inr (replicate (nat (action_space_size move_index)) 0, 0)),
      np_random = (\<lambda>k n. replicate n (1 / 2)),
      random_choice = (\<lambda>k n. 0),
      time_now = (\<lambda>k. 0),
      c_puct = 1\<rparr>"

section \<open>Time budget\<close>

lemma get_time_budget_absent:
  "time_left tm = None \<Longrightarrow> get_time_budget tm mr = Inr 5"
  by (simp add: get_time_budget_def)

lemma FLOAT_INT_LIMIT_big: "64 \<le> FLOAT_INT_LIMIT"
proof -
  define a :: int where "a = 2 ^ 970"
  define b :: int where "b = 2 ^ 1024"
  have "(2::int) ^ 6 \<le> 2 ^ 970" by (rule power_increasing) simp_all
  moreover have "(2::int) ^ 6 = 64" by simp
  ultimately have 1: "64 \<le> a" unfolding a_def by (simp only:)
  have "(2::int) ^ Suc 970 \<le> 2 ^ 1024" by (rule power_increasing) simp_all
  moreover have "(2::int) ^ Suc 970 = 2 * 2 ^ 970" by (rule power_Suc)
  ultimately have 2: "2 * a \<le> b" unfolding a_def b_def by (simp only:)
  from 1 2 have "64 \<le> b - a" by linarith
  then show ?thesis unfolding FLOAT_INT_LIMIT_def a_def b_def .
qed

lemma int_to_float_sized:
  "float_sized mr \<Longrightarrow>
   int_to_float (max 1 (case mr of None \<Rightarrow> 20 | Some m \<Rightarrow> m)) =
     Inr (real_of_int (max 1 (case mr of None \<Rightarrow> 20 | Some m \<Rightarrow> m)))"
  using FLOAT_INT_LIMIT_big
  by (cases mr) (auto simp: float_sized_def int_to_float_def)

lemma int_to_float_oversized:
  "\<not> float_sized mr \<Longrightarrow>
   int_to_float (max 1 (case mr of None \<Rightarrow> 20 | Some m \<Rightarrow> m)) = Inl OverflowError"
  by (cases mr) (auto simp: float_sized_def int_to_float_def)

text \<open>
  C10 (as the code has it): for a state whose time control is absent or parsed, and a
  \<open>moves_remaining\<close> that is absent or small enough for its divisor to convert to a float,
  \<open>get_time_budget\<close> returns a number that is at least 0.1 seconds; hence, when the
  remaining time is below 0.1 seconds, the returned budget is larger than the remaining
  time. For a larger \<open>moves_remaining\<close> and a known remaining time the division raises
  OverflowError.
\<close>

theorem get_time_budget_at_least_minimum:
  "(parsed_or_absent tm \<and> float_sized mr \<longrightarrow>
      (\<exists>b. get_time_budget tm mr = Inr b \<and> 0.1 \<le> b \<and>
           (\<forall>t. time_left tm = Some t \<and> t < 0.1 \<longrightarrow> t < b))) \<and>
   (time_left tm \<noteq> None \<and> \<not> float_sized mr \<longrightarrow>
      get_time_budget tm mr = Inl OverflowError)"
proof (intro conjI impI)
  assume a: "parsed_or_absent tm \<and> float_sized mr"
  show "\<exists>b. get_time_budget tm mr = Inr b \<and> 0.1 \<le> b \<and>
           (\<forall>t. time_left tm = Some t \<and> t < 0.1 \<longrightarrow> t < b)"
  proof (cases "time_left tm")
    case None
    then show ?thesis by (simp add: get_time_budget_def)
  next
    case (Some t)
    with a obtain inc where inc: "increment tm = Some inc"
      by (auto simp: parsed_or_absent_def)
    from a have conv: "int_to_float (max 1 (case mr of None \<Rightarrow> 20 | Some m \<Rightarrow> m)) =
        Inr (real_of_int (max 1 (case mr of None \<Rightarrow> 20 | Some m \<Rightarrow> m)))"
      by (simp add: int_to_float_sized)
    have "\<exists>x::real. get_time_budget tm mr = Inr (max 0.1 x)"
      unfolding get_time_budget_def Let_def Some inc conv
      by (simp only: option.case sum.case) blast
    then obtain x :: real where x: "get_time_budget tm mr = Inr (max 0.1 x)" ..
    have low: "(0.1::real) \<le> max 0.1 x"
      by (rule max.cobounded1)
    have "\<forall>t'. time_left tm = Some t' \<and> t' < 0.1 \<longrightarrow> t' < max 0.1 x"
      using low by auto
    with x low show ?thesis by blast
  qed
next
  assume a: "time_left tm \<noteq> None \<and> \<not> float_sized mr"
  then obtain t where t: "time_left tm = Some t" by auto
  from a have "int_to_float (max 1 (case mr of None \<Rightarrow> 20 | Some m \<Rightarrow> m)) = Inl OverflowError"
    by (simp add: int_to_float_oversized)
  then show "get_time_budget tm mr = Inl OverflowError"
    by (simp add: get_time_budget_def Let_def t)
qed

theorem get_time_budget_at_least_minimum_witness:
  "parsed_or_absent (update_time parsed_300_5 0.05) \<and> float_sized (Some 40) \<and>
   get_time_budget (update_time parsed_300_5 0.05) (Some 40) = Inr 0.1 \<and>
   time_left parsed_300_5 \<noteq> None \<and> \<not> float_sized (Some FLOAT_INT_LIMIT) \<and>
   get_time_budget parsed_300_5 (Some FLOAT_INT_LIMIT) = Inl OverflowError"
proof -
  let ?tm = "update_time parsed_300_5 0.05"
  have h: "parsed_or_absent ?tm"
    by (simp add: parsed_or_absent_def update_time_def parsed_300_5_def)
  have f: "float_sized (Some 40)"
    using FLOAT_INT_LIMIT_big by (simp add: float_sized_def)
  have t: "time_left ?tm = Some 0.05"
    by (simp add: update_time_def)
  from get_time_budget_at_least_minimum [of ?tm "Some 40"] h f
  obtain b where b: "get_time_budget ?tm (Some 40) = Inr b" and "0.1 \<le> b" by blast
  have "get_time_budget ?tm (Some 40) = Inr 0.1"
    using int_to_float_sized [OF f]
    by (simp add: get_time_budget_def update_time_def parsed_300_5_def Let_def)
  moreover have h2: "time_left parsed_300_5 \<noteq> None" by (simp add: parsed_300_5_def)
  moreover have f2: "\<not> float_sized (Some FLOAT_INT_LIMIT)"
    using FLOAT_INT_LIMIT_big by (simp add: float_sized_def)
  moreover from get_time_budget_at_least_minimum [of parsed_300_5 "Some FLOAT_INT_LIMIT"] h2 f2
  have "get_time_budget parsed_300_5 (Some FLOAT_INT_LIMIT) = Inl OverflowError" by blast
  ultimately show ?thesis using h f by simp
qed

text \<open>
  With \<open>moves_remaining = 2^1024 - 2^970\<close> the call raises instead of returning a
  budget.
\<close>

theorem get_time_budget_counterexample:
  "get_time_budget parsed_300_5 (Some FLOAT_INT_LIMIT) = Inl OverflowError"
  using FLOAT_INT_LIMIT_big
  by (simp add: get_time_budget_def parsed_300_5_def int_to_float_def Let_def)

text \<open>
  A state that \<open>update_time\<close> alone produces has a remaining time but no increment; the
  call raises TypeError there.
\<close>

lemma get_time_budget_after_update_time:
  "get_time_budget (update_time (TimeManager_init None) 10) None = Inl TypeError"
  using FLOAT_INT_LIMIT_big
  by (simp add: get_time_budget_def update_time_def TimeManager_init_def int_to_float_def
        Let_def)

section \<open>Bounds of the static evaluation\<close>

lemma centipawns_to_value_bounds:
  "- 1 \<le> centipawns_to_value cp \<and> centipawns_to_value cp \<le> 1"
proof -
  let ?c = "max (- 1000) (min 1000 cp)"
  have "- 1000 \<le> ?c" and "?c \<le> 1000" by simp_all
  then have "- 1000 \<le> real_of_int ?c" and "real_of_int ?c \<le> 1000" by linarith+
  then show ?thesis by (simp add: centipawns_to_value_def Let_def)
qed

lemma evaluate_position_value_range:
  "- 1 \<le> fst (evaluate_position L pos) \<and> fst (evaluate_position L pos) \<le> 1"
proof -
  obtain cp where cp: "evaluate_position L pos = (centipawns_to_value cp, cp)"
    by (simp add: evaluate_position_def Let_def)
  with centipawns_to_value_bounds [of cp] show ?thesis by simp
qed

text \<open>
  C5 fails on the code: the value is clamped to \<open>[-1, 1]\<close>, the centipawn component is
  not. On the lone-king position of the repository's own bounds test the material
  evaluator returns 20000 centipawns.
\<close>

theorem evaluate_position_king_only:
  "evaluate_position toy_lib king_only = (1, 20000)"
proof -
  have "foldl (count_square toy_lib king_only) 0 SQUARES = 20000"
    by code_simp
  then show ?thesis
    by (simp add: evaluate_position_def Let_def toy_lib_def king_only_def
          centipawns_to_value_def)
qed

section \<open>The move index is a bijection on the registered shapes\<close>

lemma SQUARE_NAMES_length: "length SQUARE_NAMES = 64"
  by (simp add: SQUARE_NAMES_def FILE_NAMES_def RANK_NAMES_def)

lemma SQUARE_NAMES_distinct: "distinct SQUARE_NAMES"
  by (simp add: SQUARE_NAMES_def FILE_NAMES_def RANK_NAMES_def)

lemma SQUARE_NAMES_len2: "s \<in> set SQUARE_NAMES \<Longrightarrow> length s = 2"
  by (auto simp add: SQUARE_NAMES_def FILE_NAMES_def RANK_NAMES_def)

lemma char_lower_upper_symbol: "char_lower (char_upper (piece_symbol pt)) = piece_symbol pt"
  by (cases pt) (simp_all add: char_lower_def char_upper_def char_of_def bit_0)

lemma piece_of_symbol_symbol: "piece_of_symbol (piece_symbol pt) = Inr pt"
  by (cases pt) (simp_all add: piece_of_symbol_def PIECE_TYPES_def)

lemma char_upper_symbol_inj:
  "char_upper (piece_symbol p) = char_upper (piece_symbol q) \<Longrightarrow> p = q"
  by (cases p; cases q) (simp_all add: char_upper_def char_of_def bit_0)

lemma index_of_nth: "distinct xs \<Longrightarrow> i < length xs \<Longrightarrow> index_of (xs ! i) xs = Some i"
proof (induction xs arbitrary: i)
  case Nil
  then show ?case by simp
next
  case (Cons x xs)
  show ?case
  proof (cases i)
    case 0
    then show ?thesis by simp
  next
    case (Suc j)
    with Cons.prems have j: "j < length xs" and "x \<notin> set xs" and d: "distinct xs" by auto
    then have "xs ! j \<noteq> x" by (metis nth_mem)
    with Cons.IH [OF d j] Suc show ?thesis by auto
  qed
qed

lemma square_name_on_board: "sq < 64 \<Longrightarrow> square_name sq = Inr (SQUARE_NAMES ! sq)"
  by (simp add: square_name_def SQUARE_NAMES_length)

lemma square_name_off_board: "\<not> sq < 64 \<Longrightarrow> square_name sq = Inl IndexError"
  by (simp add: square_name_def SQUARE_NAMES_length)

lemma parse_square_name: "sq < 64 \<Longrightarrow> parse_square (SQUARE_NAMES ! sq) = Inr sq"
  by (simp add: parse_square_def index_of_nth SQUARE_NAMES_distinct SQUARE_NAMES_length)

lemma square_name_length: "sq < 64 \<Longrightarrow> length (SQUARE_NAMES ! sq) = 2"
  by (rule SQUARE_NAMES_len2) (simp add: SQUARE_NAMES_length)

lemma square_name_inj:
  "a < 64 \<Longrightarrow> b < 64 \<Longrightarrow> SQUARE_NAMES ! a = SQUARE_NAMES ! b \<Longrightarrow> a = b"
  using SQUARE_NAMES_distinct by (simp add: nth_eq_iff_index_eq SQUARE_NAMES_length)

lemma move_to_string_on_board:
  "f < 64 \<Longrightarrow> t < 64 \<Longrightarrow> move_to_string f t p = Inr (shape_string f t p)"
  by (cases p) (simp_all add: move_to_string_def shape_string_def square_name_on_board)

lemma shape_string_inj:
  assumes "f < 64" "t < 64" "f' < 64" "t' < 64"
    and eq: "shape_string f t p = shape_string f' t' p'"
  shows "f = f' \<and> t = t' \<and> p = p'"
proof -
  let ?suf = "\<lambda>p. case p of None \<Rightarrow> [] | Some pt \<Rightarrow> [char_upper (piece_symbol pt)]"
  have l: "length (SQUARE_NAMES ! f) = length (SQUARE_NAMES ! f')"
    "length (SQUARE_NAMES ! t) = length (SQUARE_NAMES ! t')"
    using assms by (simp_all add: square_name_length)
  from eq have "SQUARE_NAMES ! f @ (SQUARE_NAMES ! t @ ?suf p)
      = SQUARE_NAMES ! f' @ (SQUARE_NAMES ! t' @ ?suf p')"
    by (simp add: shape_string_def)
  with l have a: "SQUARE_NAMES ! f = SQUARE_NAMES ! f'"
    and b: "SQUARE_NAMES ! t = SQUARE_NAMES ! t'" and c: "?suf p = ?suf p'"
    by simp_all
  from c have "p = p'"
    by (cases p; cases p') (auto dest: char_upper_symbol_inj)
  with a b assms show ?thesis by (auto dest: square_name_inj)
qed

lemma parse_shape_string:
  assumes "f < 64" "t < 64"
  shows "parse_move_str (shape_string f t p) = Inr (Some (Move f t p))"
proof (cases p)
  case None
  with assms show ?thesis
    by (simp add: parse_move_str_def shape_string_def square_name_length parse_square_name)
next
  case (Some pt)
  with assms show ?thesis
    by (simp add: parse_move_str_def shape_string_def square_name_length parse_square_name
        nth_append char_lower_upper_symbol piece_of_symbol_symbol)
qed

lemma for_each_invariant_aux:
  assumes "I pre s"
    and "\<And>pre x s. I pre s \<Longrightarrow> x \<in> set xs \<Longrightarrow> \<exists>s'. body x s = Inr s' \<and> I (pre @ [x]) s'"
  shows "\<exists>s'. for_each body xs s = Inr s' \<and> I (pre @ xs) s'"
  using assms
proof (induction xs arbitrary: pre s)
  case Nil
  then show ?case by simp
next
  case (Cons x xs)
  from Cons.prems(2) [OF Cons.prems(1), of x]
  obtain s1 where s1: "body x s = Inr s1" "I (pre @ [x]) s1" by auto
  have "\<exists>s'. for_each body xs s1 = Inr s' \<and> I ((pre @ [x]) @ xs) s'"
    by (rule Cons.IH [OF s1(2)]) (rule Cons.prems(2), simp_all)
  with s1 show ?case by simp
qed

lemma for_each_invariant:
  assumes "I [] s"
    and "\<And>pre x s. I pre s \<Longrightarrow> x \<in> set xs \<Longrightarrow> \<exists>s'. body x s = Inr s' \<and> I (pre @ [x]) s'"
  shows "\<exists>s'. for_each body xs s = Inr s' \<and> I xs s'"
  using for_each_invariant_aux [of I "[]" s xs body] assms by simp

lemma register_move_ok:
  assumes "index_ok self D"
  shows "index_ok (register_move self s) (insert s D)"
proof (cases "move_to_id self s")
  case None
  from assms have bij: "\<And>s i. move_to_id self s = Some i \<longleftrightarrow> id_to_move self i = Some s"
    and d: "\<And>i. id_to_move self i = None \<longleftrightarrow> \<not> (0 \<le> i \<and> i < next_id self)"
    and n: "0 \<le> next_id self"
    and D: "\<And>s. move_to_id self s = None \<longleftrightarrow> s \<notin> D"
    by (simp_all add: index_ok_def)
  let ?r = "register_move self s"
  have r: "move_to_id ?r = (move_to_id self)(s \<mapsto> next_id self)"
    "id_to_move ?r = (id_to_move self)(next_id self \<mapsto> s)"
    "next_id ?r = next_id self + 1"
    using None by (simp_all add: register_move_def)
  have fresh: "id_to_move self (next_id self) = None"
    using d by simp
  have nos: "\<And>i. id_to_move self i \<noteq> Some s"
    using None bij by (metis option.distinct(1))
  have non: "\<And>s'. move_to_id self s' \<noteq> Some (next_id self)"
    using fresh bij by (metis option.distinct(1))
  have 1: "\<forall>s' i. move_to_id ?r s' = Some i \<longleftrightarrow> id_to_move ?r i = Some s'"
  proof (intro allI)
    fix s' i
    consider "s' = s" "i = next_id self" | "s' = s" "i \<noteq> next_id self"
      | "s' \<noteq> s" "i = next_id self" | "s' \<noteq> s" "i \<noteq> next_id self"
      by blast
    then show "move_to_id ?r s' = Some i \<longleftrightarrow> id_to_move ?r i = Some s'"
    proof cases
      case 1
      then show ?thesis by (simp add: r)
    next
      case 2
      then show ?thesis using nos [of i] by (auto simp add: r)
    next
      case 3
      then show ?thesis using non [of s'] by (auto simp add: r)
    next
      case 4
      then show ?thesis using bij [of s' i] by (simp add: r)
    qed
  qed
  have 2: "\<forall>i. id_to_move ?r i = None \<longleftrightarrow> \<not> (0 \<le> i \<and> i < next_id ?r)"
  proof (intro allI)
    fix i
    show "id_to_move ?r i = None \<longleftrightarrow> \<not> (0 \<le> i \<and> i < next_id ?r)"
    proof (cases "i = next_id self")
      case True
      then show ?thesis using n by (simp add: r)
    next
      case False
      then show ?thesis using d [of i] by (auto simp add: r)
    qed
  qed
  have 3: "0 \<le> next_id ?r"
    using n by (simp add: r)
  have 4: "\<forall>s'. move_to_id ?r s' = None \<longleftrightarrow> s' \<notin> insert s D"
  proof (intro allI)
    fix s'
    show "move_to_id ?r s' = None \<longleftrightarrow> s' \<notin> insert s D"
      using D [of s'] by (cases "s' = s") (simp_all add: r)
  qed
  from 1 2 3 4 show ?thesis
    unfolding index_ok_def by blast
next
  case (Some i)
  then have "register_move self s = self"
    by (simp add: register_move_def)
  moreover have "s \<in> D"
    using assms Some unfolding index_ok_def by (metis option.distinct(1))
  then have "insert s D = D" by blast
  ultimately show ?thesis using assms by simp
qed



lemma generate_to_ok:
  assumes ok: "index_ok self D" and f: "f < 64" and t: "t < 64"
  shows "\<exists>self'. generate_to f t self = Inr self' \<and>
           index_ok self' (D \<union> {shape_string f t p | p. f \<noteq> t \<and> p \<in> set PROMOTION_CHOICES})"
proof (cases "f = t")
  case True
  with ok show ?thesis by (simp add: generate_to_def)
next
  case False
  let ?I = "\<lambda>pre s. index_ok s (D \<union> {shape_string f t p | p. p \<in> set pre})"
  have "\<exists>self'. for_each (generate_piece f t) PROMOTION_CHOICES self = Inr self' \<and>
          ?I PROMOTION_CHOICES self'"
  proof (rule for_each_invariant [where I = "?I"])
    show "?I [] self" using ok by simp
  next
    fix pre x s
    assume I: "?I pre s"
    have e: "insert (shape_string f t x) (D \<union> {shape_string f t p | p. p \<in> set pre})
        = D \<union> {shape_string f t p | p. p \<in> set (pre @ [x])}"
      by auto
    have "?I (pre @ [x]) (register_move s (shape_string f t x))"
      using register_move_ok [OF I, of "shape_string f t x"] by (simp only: e)
    moreover have "generate_piece f t x s = Inr (register_move s (shape_string f t x))"
      by (simp add: generate_piece_def move_to_string_on_board f t)
    ultimately show "\<exists>s'. generate_piece f t x s = Inr s' \<and> ?I (pre @ [x]) s'"
      by blast
  qed
  with False show ?thesis by (simp add: generate_to_def)
qed

lemma generate_from_ok:
  assumes ok: "index_ok self D" and f: "f < 64"
  shows "\<exists>self'. generate_from f self = Inr self' \<and>
           index_ok self' (D \<union> {shape_string f t p | t p. valid_shape f t p})"
proof -
  let ?S = "\<lambda>pre. {shape_string f t p | t p. t \<in> set pre \<and> f \<noteq> t \<and> p \<in> set PROMOTION_CHOICES}"
  let ?I = "\<lambda>pre s. index_ok s (D \<union> ?S pre)"
  have step: "\<exists>self'. for_each (generate_to f) [0..<64] self = Inr self' \<and> ?I [0..<64] self'"
  proof (rule for_each_invariant [where I = "?I"])
    show "?I [] self" using ok by simp
  next
    fix pre x s
    assume I: "?I pre s" and "x \<in> set [0..<64]"
    then have x: "x < 64" by simp
    have e: "(D \<union> ?S pre) \<union> {shape_string f x p | p. f \<noteq> x \<and> p \<in> set PROMOTION_CHOICES}
        = D \<union> ?S (pre @ [x])"
      by auto
    from generate_to_ok [OF I f x]
    show "\<exists>s'. generate_to f x s = Inr s' \<and> ?I (pre @ [x]) s'"
      by (simp only: e)
  qed
  have e: "?S [0..<64] = {shape_string f t p | t p. valid_shape f t p}"
    using f by (auto simp: valid_shape_def)
  from step show ?thesis
    unfolding generate_from_def by (simp only: e)
qed

lemma generate_all_moves_ok:
  assumes ok: "index_ok self D"
  shows "\<exists>self'. generate_all_moves self = Inr self' \<and> index_ok self' (D \<union> registered_strings)"
proof -
  let ?S = "\<lambda>pre. {shape_string f t p | f t p. f \<in> set pre \<and> valid_shape f t p}"
  let ?I = "\<lambda>pre s. index_ok s (D \<union> ?S pre)"
  have step: "\<exists>self'. for_each generate_from [0..<64] self = Inr self' \<and> ?I [0..<64] self'"
  proof (rule for_each_invariant [where I = "?I"])
    show "?I [] self" using ok by simp
  next
    fix pre x s
    assume I: "?I pre s" and "x \<in> set [0..<64]"
    then have x: "x < 64" by simp
    have e: "(D \<union> ?S pre) \<union> {shape_string x t p | t p. valid_shape x t p}
        = D \<union> ?S (pre @ [x])"
      by auto
    from generate_from_ok [OF I x]
    show "\<exists>s'. generate_from x s = Inr s' \<and> ?I (pre @ [x]) s'"
      by (simp only: e)
  qed
  have e: "?S [0..<64] = registered_strings"
    by (auto simp: valid_shape_def registered_strings_def)
  from step show ?thesis
    unfolding generate_all_moves_def by (simp only: e)
qed

lemma empty_index_ok: "index_ok empty_index {}"
  by (simp add: index_ok_def empty_index_def)

lemma MoveIndex_init_move_index: "MoveIndex_init = Inr move_index"
proof -
  from generate_all_moves_ok [OF empty_index_ok]
  obtain self' where "generate_all_moves empty_index = Inr self'" by blast
  then show ?thesis by (simp add: move_index_def MoveIndex_init_def)
qed

lemma move_index_ok: "index_ok move_index registered_strings"
proof -
  from generate_all_moves_ok [OF empty_index_ok]
  obtain self' where s: "generate_all_moves empty_index = Inr self'"
    and ok: "index_ok self' ({} \<union> registered_strings)" by blast
  from s have "move_index = self'" by (simp add: move_index_def MoveIndex_init_def)
  with ok show ?thesis by simp
qed

section \<open>Round trip, totality and the legal-move mask\<close>

lemma valid_shape_on_board: "valid_shape f t p \<Longrightarrow> f < 64 \<and> t < 64"
  by (simp add: valid_shape_def)

lemma registered_lookup:
  assumes "valid_shape f t p"
  shows "\<exists>i. move_to_id move_index (shape_string f t p) = Some i \<and>
             id_to_move move_index i = Some (shape_string f t p) \<and>
             0 \<le> i \<and> i < next_id move_index"
proof -
  from move_index_ok
  have bij: "\<And>s i. move_to_id move_index s = Some i \<longleftrightarrow> id_to_move move_index i = Some s"
    and d: "\<And>i. id_to_move move_index i = None \<longleftrightarrow> \<not> (0 \<le> i \<and> i < next_id move_index)"
    and D: "\<And>s. move_to_id move_index s = None \<longleftrightarrow> s \<notin> registered_strings"
    by (simp_all add: index_ok_def)
  from assms have "shape_string f t p \<in> registered_strings"
    unfolding registered_strings_def by blast
  with D obtain i where i: "move_to_id move_index (shape_string f t p) = Some i"
    by (metis not_Some_eq)
  with bij have j: "id_to_move move_index i = Some (shape_string f t p)" by simp
  with d [of i] have "0 \<le> i \<and> i < next_id move_index" by auto
  with i j show ?thesis by blast
qed


lemma registered_ids:
  assumes "id_to_move move_index i = Some s"
  shows "\<exists>f t p. valid_shape f t p \<and> s = shape_string f t p \<and>
           move_to_id move_index s = Some i"
proof -
  from move_index_ok
  have bij: "\<And>s i. move_to_id move_index s = Some i \<longleftrightarrow> id_to_move move_index i = Some s"
    and D: "\<And>s. move_to_id move_index s = None \<longleftrightarrow> s \<notin> registered_strings"
    by (simp_all add: index_ok_def)
  from assms bij have m: "move_to_id move_index s = Some i" by simp
  with D [of s] have "s \<in> registered_strings" by auto
  with m show ?thesis unfolding registered_strings_def by blast
qed

lemma id_range:
  "id_to_move move_index i = None \<longleftrightarrow> \<not> (0 \<le> i \<and> i < action_space_size move_index)"
  using move_index_ok by (simp add: index_ok_def action_space_size_def)

lemma to_id_valid:
  assumes "valid_shape (from_square m) (to_square m) (promotion m)"
  shows "\<exists>i. to_id move_index m = Inr i \<and> 0 \<le> i \<and> i < action_space_size move_index \<and>
           move_to_id move_index (shape_string (from_square m) (to_square m) (promotion m)) = Some i \<and>
           id_to_move move_index i = Some (shape_string (from_square m) (to_square m) (promotion m))"
proof -
  from registered_lookup [OF assms] obtain i
    where i: "move_to_id move_index (shape_string (from_square m) (to_square m) (promotion m)) = Some i"
      "id_to_move move_index i = Some (shape_string (from_square m) (to_square m) (promotion m))"
      "0 \<le> i" "i < next_id move_index" by blast
  from assms have b: "from_square m < 64" "to_square m < 64" by (simp_all add: valid_shape_def)
  have "to_id move_index m = Inr i"
    by (simp add: to_id_def move_to_string_on_board b i(1))
  with i show ?thesis by (simp add: action_space_size_def)
qed


lemma from_id_registered:
  assumes "id_to_move move_index i = Some (shape_string f t p)" "f < 64" "t < 64"
  shows "from_id L move_index i pos =
           Inr (if is_legal L pos (Move f t p) then Some (Move f t p) else None)"
  by (simp add: from_id_def assms parse_shape_string)

lemma from_id_unregistered:
  assumes "id_to_move move_index i = None"
  shows "from_id L move_index i pos = Inr None"
  by (simp add: from_id_def assms)

lemma legal_move_shape:
  assumes "legal_moves_wf L pos" "m \<in> set (legal_moves L pos)"
  shows "valid_shape (from_square m) (to_square m) (promotion m) \<and>
         m = Move (from_square m) (to_square m) (promotion m)"
proof -
  from assms have "valid_shape (from_square m) (to_square m) (promotion m)"
    and "drop_piece m = None"
    by (auto simp: legal_moves_wf_def list_all_iff)
  then show ?thesis by (cases m) (simp add: Move_def)
qed




text \<open>
  C9: for every integer id and every position, \<open>from_id\<close> does not raise; for a
  registered id it returns the reconstructed move exactly when the library says that the
  move is legal in the position (\<open>move in board.legal_moves\<close>) and \<open>None\<close> otherwise, and
  for every id outside \<open>0 .. action_space_size - 1\<close> it returns \<open>None\<close>.
\<close>

theorem from_id_total:
  "\<exists>r. from_id L move_index i pos = Inr r \<and>
     (if 0 \<le> i \<and> i < action_space_size move_index
      then \<exists>f t p. valid_shape f t p \<and> to_id move_index (Move f t p) = Inr i \<and>
             r = (if is_legal L pos (Move f t p) then Some (Move f t p) else None)
      else r = None)"
proof (cases "id_to_move move_index i")
  case None
  with id_range [of i] have "\<not> (0 \<le> i \<and> i < action_space_size move_index)" by simp
  with from_id_unregistered [OF None, of L pos] show ?thesis by auto
next
  case (Some s)
  from registered_ids [OF Some] obtain f t p where v: "valid_shape f t p"
    and s: "s = shape_string f t p" and m: "move_to_id move_index s = Some i" by blast
  from v have b: "f < 64" "t < 64" by (simp_all add: valid_shape_def)
  have r: "0 \<le> i \<and> i < action_space_size move_index"
    using id_range [of i] Some by simp
  have t: "to_id move_index (Move f t p) = Inr i"
    using m s by (simp add: to_id_def Move_def move_to_string_on_board b)
  have "from_id L move_index i pos =
      Inr (if is_legal L pos (Move f t p) then Some (Move f t p) else None)"
    using Some s b by (simp add: from_id_registered)
  with v t r show ?thesis by auto
qed

lemma promotion_board_legal:
  "legal_moves toy_lib promotion_board =
     [Move 52 60 (Some QUEEN), Move 52 60 (Some ROOK), Move 52 60 (Some BISHOP),
      Move 52 60 (Some KNIGHT)]"
  by (simp add: toy_lib_def promotion_board_def)

lemma promotion_board_wf: "legal_moves_wf toy_lib promotion_board"
  unfolding legal_moves_wf_def promotion_board_legal
  by (simp add: valid_shape_def PROMOTION_CHOICES_def Move_def)

lemma legal_slot_inj:
  assumes wf: "legal_moves_wf L pos"
    and m: "m \<in> set (legal_moves L pos)" and m': "m' \<in> set (legal_moves L pos)"
    and i: "to_id move_index m = Inr i" and i': "to_id move_index m' = Inr i"
  shows "m = m'"
proof -
  let ?s = "\<lambda>m. shape_string (from_square m) (to_square m) (promotion m)"
  from legal_move_shape [OF wf m] have v: "valid_shape (from_square m) (to_square m) (promotion m)"
    and e: "m = Move (from_square m) (to_square m) (promotion m)" by simp_all
  from legal_move_shape [OF wf m'] have v': "valid_shape (from_square m') (to_square m') (promotion m')"
    and e': "m' = Move (from_square m') (to_square m') (promotion m')" by simp_all
  from to_id_valid [OF v] i have "id_to_move move_index i = Some (?s m)" by auto
  moreover from to_id_valid [OF v'] i' have "id_to_move move_index i = Some (?s m')" by auto
  ultimately have "?s m = ?s m'" by simp
  with shape_string_inj [of "from_square m" "to_square m" "from_square m'" "to_square m'"
      "promotion m" "promotion m'"] v v'
  have "from_square m = from_square m' \<and> to_square m = to_square m' \<and> promotion m = promotion m'"
    by (simp add: valid_shape_def)
  with e e' show ?thesis by metis
qed

lemma mark_legal_valid:
  assumes v: "valid_shape (from_square m) (to_square m) (promotion m)"
    and len: "length msk = nat (action_space_size move_index)"
  shows "\<exists>i. to_id move_index m = Inr i \<and> 0 \<le> i \<and> nat i < length msk \<and>
           mark_legal move_index m msk = Inr (msk[nat i := True])"
proof -
  from to_id_valid [OF v] obtain i where i: "to_id move_index m = Inr i" "0 \<le> i"
    "i < action_space_size move_index" by blast
  then have "nat i < length msk" using len by simp
  with i show ?thesis by (simp add: mark_legal_def)
qed

lemma get_legal_move_mask_spec:
  assumes wf: "legal_moves_wf L pos"
  shows "\<exists>msk. get_legal_move_mask L move_index pos = Inr msk \<and>
           length msk = nat (action_space_size move_index) \<and>
           (\<forall>j < length msk. msk ! j \<longleftrightarrow>
              (\<exists>m \<in> set (legal_moves L pos). to_id move_index m = Inr (int j)))"
proof -
  let ?n = "nat (action_space_size move_index)"
  let ?I = "\<lambda>pre msk. length msk = ?n \<and>
      (\<forall>j < ?n. msk ! j \<longleftrightarrow> (\<exists>m \<in> set pre. to_id move_index m = Inr (int j)))"
  have "\<exists>msk. for_each (mark_legal move_index) (legal_moves L pos) (replicate ?n False) = Inr msk
          \<and> ?I (legal_moves L pos) msk"
  proof (rule for_each_invariant [where I = "?I"])
    show "?I [] (replicate ?n False)" by simp
  next
    fix pre x s
    assume I: "?I pre s" and x: "x \<in> set (legal_moves L pos)"
    from legal_move_shape [OF wf x]
    have v: "valid_shape (from_square x) (to_square x) (promotion x)" by simp
    from I have len: "length s = ?n" by simp
    from mark_legal_valid [OF v len] obtain i where i: "to_id move_index x = Inr i" "0 \<le> i"
      "nat i < length s" "mark_legal move_index x s = Inr (s[nat i := True])" by blast
    have "?I (pre @ [x]) (s[nat i := True])"
    proof (intro conjI allI impI)
      show "length (s[nat i := True]) = ?n" using len by simp
    next
      fix j assume j: "j < ?n"
      show "s[nat i := True] ! j \<longleftrightarrow> (\<exists>m \<in> set (pre @ [x]). to_id move_index m = Inr (int j))"
      proof (cases "j = nat i")
        case True
        then have "to_id move_index x = Inr (int j)" using i by simp
        with True i(3) show ?thesis by auto
      next
        case False
        then have "to_id move_index x \<noteq> Inr (int j)" using i by auto
        moreover have "s[nat i := True] ! j = s ! j" using False by simp
        ultimately show ?thesis using I j by auto
      qed
    qed
    with i(4) show "\<exists>s'. mark_legal move_index x s = Inr s' \<and> ?I (pre @ [x]) s'" by blast
  qed
  then show ?thesis unfolding get_legal_move_mask_def by auto
qed

text \<open>
  C7: for every position, \<open>get_legal_move_mask\<close> returns a mask whose number of
  \<open>True\<close> entries is the number of legal moves of the position, and the id of every
  legal move is set in the mask.
\<close>

theorem legal_move_mask_popcount:
  assumes wf: "legal_moves_wf L pos"
  shows "\<exists>msk. get_legal_move_mask L move_index pos = Inr msk \<and>
           length (filter (\<lambda>b. b) msk) = length (legal_moves L pos) \<and>
           list_all (\<lambda>m. \<exists>i. to_id move_index m = Inr i \<and> 0 \<le> i \<and> nat i < length msk \<and>
                          msk ! nat i) (legal_moves L pos)"
proof -
  from get_legal_move_mask_spec [OF wf] obtain msk
    where g: "get_legal_move_mask L move_index pos = Inr msk"
      and len: "length msk = nat (action_space_size move_index)"
      and bits: "\<And>j. j < length msk \<Longrightarrow> msk ! j \<longleftrightarrow>
              (\<exists>m \<in> set (legal_moves L pos). to_id move_index m = Inr (int j))"
    by blast
  let ?k = "\<lambda>m. case to_id move_index m of Inr i \<Rightarrow> nat i | Inl e \<Rightarrow> 0"
  have slot: "\<exists>i. to_id move_index m = Inr i \<and> 0 \<le> i \<and> nat i < length msk"
    if "m \<in> set (legal_moves L pos)" for m
  proof -
    from legal_move_shape [OF wf that]
    have "valid_shape (from_square m) (to_square m) (promotion m)" by simp
    from to_id_valid [OF this] len show ?thesis by auto
  qed
  have set_eq: "{j. j < length msk \<and> msk ! j} = ?k ` set (legal_moves L pos)"
  proof (intro set_eqI iffI)
    fix j assume "j \<in> {j. j < length msk \<and> msk ! j}"
    then have "j < length msk" "msk ! j" by simp_all
    with bits obtain m where "m \<in> set (legal_moves L pos)" "to_id move_index m = Inr (int j)"
      by blast
    then show "j \<in> ?k ` set (legal_moves L pos)" by force
  next
    fix j assume "j \<in> ?k ` set (legal_moves L pos)"
    then obtain m where m: "m \<in> set (legal_moves L pos)" and j: "j = ?k m" by blast
    from slot [OF m] obtain i where i: "to_id move_index m = Inr i" "0 \<le> i" "nat i < length msk"
      by blast
    with j have "j = nat i" by simp
    with i m bits [of j] show "j \<in> {j. j < length msk \<and> msk ! j}" by auto
  qed
  have inj: "inj_on ?k (set (legal_moves L pos))"
  proof (rule inj_onI)
    fix m m' assume m: "m \<in> set (legal_moves L pos)" and m': "m' \<in> set (legal_moves L pos)"
      and e: "?k m = ?k m'"
    from slot [OF m] obtain i where i: "to_id move_index m = Inr i" "0 \<le> i" by blast
    from slot [OF m'] obtain i' where i': "to_id move_index m' = Inr i'" "0 \<le> i'" by blast
    from e i i' have "i = i'" by simp
    with legal_slot_inj [OF wf m m' i(1)] i' show "m = m'" by simp
  qed
  have "length (filter (\<lambda>b. b) msk) = card {j. j < length msk \<and> msk ! j}"
    by (rule length_filter_conv_card)
  also have "\<dots> = card (?k ` set (legal_moves L pos))" by (simp only: set_eq)
  also have "\<dots> = card (set (legal_moves L pos))" using inj by (rule card_image)
  also have "\<dots> = length (legal_moves L pos)"
    using wf by (simp add: legal_moves_wf_def distinct_card)
  finally have count: "length (filter (\<lambda>b. b) msk) = length (legal_moves L pos)" .
  have marked: "list_all (\<lambda>m. \<exists>i. to_id move_index m = Inr i \<and> 0 \<le> i \<and> nat i < length msk \<and>
                          msk ! nat i) (legal_moves L pos)"
    unfolding list_all_iff
  proof
    fix m assume m: "m \<in> set (legal_moves L pos)"
    from slot [OF m] obtain i where i: "to_id move_index m = Inr i" "0 \<le> i" "nat i < length msk"
      by blast
    with bits [of "nat i"] m have "msk ! nat i" by auto
    with i show "\<exists>i. to_id move_index m = Inr i \<and> 0 \<le> i \<and> nat i < length msk \<and> msk ! nat i"
      by blast
  qed
  from g count marked show ?thesis by blast
qed

theorem legal_move_mask_popcount_witness:
  "legal_moves_wf toy_lib promotion_board \<and>
   (\<exists>msk. get_legal_move_mask toy_lib move_index promotion_board = Inr msk \<and>
          length (filter (\<lambda>b. b) msk) = 4)"
proof -
  from legal_move_mask_popcount [OF promotion_board_wf] obtain msk
    where "get_legal_move_mask toy_lib move_index promotion_board = Inr msk"
      and "length (filter (\<lambda>b. b) msk) = length (legal_moves toy_lib promotion_board)"
    by blast
  then show ?thesis using promotion_board_wf by (auto simp: promotion_board_legal)
qed



theorem from_id_total_witness:
  "from_id toy_lib move_index (- 1) promotion_board = Inr None"
  using from_id_total [of toy_lib "- 1" promotion_board] by auto

section \<open>Killer moves, the history table and the reported best move\<close>

lemma ab_inv_refl: "ab_inv st st"
  by (simp add: ab_inv_def)

lemma ab_inv_trans: "ab_inv st st' \<Longrightarrow> ab_inv st' st'' \<Longrightarrow> ab_inv st st''"
  by (simp add: ab_inv_def)

lemma ab_inv_enter: "enter_node E st0 = (now, st) \<Longrightarrow> ab_inv st0 st"
  by (auto simp: ab_inv_def killers_bounded_def enter_node_def time_time_def)

lemma ab_inv_time: "time_time E st0 = (now, st) \<Longrightarrow> ab_inv st0 st"
  by (auto simp: ab_inv_def killers_bounded_def time_time_def)

lemma ab_inv_tt_record: "ab_inv st (tt_record st k d bv bm a b)"
  by (simp add: ab_inv_def killers_bounded_def tt_record_def Let_def)

lemma store_killer_move_history:
  "history_table (store_killer_move st m d) = history_table st"
  by (simp add: store_killer_move_def Let_def)

lemma store_killer_move_lookup:
  "\<exists>ks. killer_moves (store_killer_move st m d) d = Some ks \<and> m \<in> set ks"
  by (auto simp: store_killer_move_def Let_def split: option.splits)

lemma store_killer_move_other:
  "d' \<noteq> d \<Longrightarrow> killer_moves (store_killer_move st m d) d' = killer_moves st d'"
  by (simp add: store_killer_move_def Let_def)

lemma store_killer_move_bounded:
  assumes "killers_bounded st"
  shows "killers_bounded (store_killer_move st m d)"
proof -
  have old: "length ks \<le> 2" if "killer_moves st d' = Some ks" for d' ks
    using assms that unfolding killers_bounded_def by blast
  show ?thesis
    unfolding killers_bounded_def
  proof (intro allI impI)
    fix d' ks assume k: "killer_moves (store_killer_move st m d) d' = Some ks"
    show "length ks \<le> 2"
    proof (cases "d' = d")
      case False
      with k old show ?thesis by (simp add: store_killer_move_other)
    next
      case True
      show ?thesis
      proof (cases "killer_moves st d")
        case None
        with k True show ?thesis
          by (auto simp: store_killer_move_def Let_def split: if_splits)
      next
        case (Some ks0)
        from old [OF Some] have "length ks0 \<le> 2" .
        with k True Some show ?thesis
          by (auto simp: store_killer_move_def Let_def split: if_splits)
      qed
    qed
  qed
qed

lemma ab_inv_store: "ab_inv st (store_killer_move st m d)"
  by (simp add: ab_inv_def store_killer_move_history store_killer_move_bounded)

lemma alpha_beta_loop_inv:
  assumes child: "\<And>b a be s. ab_inv s (snd (alpha_beta E b (depth + 1) a be max_depth t_start max_time s))"
  shows "ab_inv st (snd (alpha_beta_loop E pos depth alpha beta max_depth t_start max_time moves
                     best_value best_move st))"
proof (induction moves arbitrary: alpha best_value best_move st)
  case Nil
  show ?case by (simp add: ab_inv_refl)
next
  case (Cons mv rest)
  let ?r = "alpha_beta E (push (lib E) pos mv) (depth + 1) (fneg beta) (fneg alpha)
              max_depth t_start max_time st"
  obtain x st' where r: "?r = (x, st')" by (cases ?r)
  from child [of st "push (lib E) pos mv" "fneg beta" "fneg alpha"] r
  have a: "ab_inv st st'" by simp
  show ?case
  proof (cases x)
    case (Inl e)
    with r a show ?thesis by simp
  next
    case (Inr v)
    show ?thesis
    proof (cases "fge (fneg v) beta")
      case True
      with r Inr show ?thesis
        by (simp add: Let_def ab_inv_trans [OF a ab_inv_store])
    next
      case False
      with r Inr show ?thesis
        by (simp add: Let_def ab_inv_trans [OF a Cons.IH])
    qed
  qed
qed

lemma alpha_beta_inv_aux:
  "nat (max_depth - depth) \<le> n \<Longrightarrow>
   ab_inv st0 (snd (alpha_beta E pos depth alpha beta max_depth t_start max_time st0))"
proof (induction n arbitrary: depth pos alpha beta st0)
  case 0
  obtain now st where e: "enter_node E st0 = (now, st)" by (cases "enter_node E st0")
  from 0 have "depth \<ge> max_depth" by simp
  with e ab_inv_enter [OF e] show ?case
    by (subst alpha_beta.simps) simp
next
  case (Suc n)
  obtain now st where e: "enter_node E st0 = (now, st)" by (cases "enter_node E st0")
  note base = ab_inv_enter [OF e]
  have child: "\<And>b a be s. ab_inv s (snd (alpha_beta E b (depth + 1) a be max_depth t_start max_time s))"
    using Suc.prems by (intro Suc.IH) simp
  note loop = alpha_beta_loop_inv [OF child]
  show ?case
  proof (cases "tt_probe st (fen (lib E) pos) depth alpha beta")
    case (Inl v)
    with e base show ?thesis by (subst alpha_beta.simps) simp
  next
    case (Inr window)
    let ?l = "alpha_beta_loop E pos depth (fst window) (snd window) max_depth t_start max_time
                (order_moves E st pos (legal_moves (lib E) pos)) NegInf None st"
    obtain y st' where l: "?l = (y, st')" by (cases ?l)
    from loop [of st pos "fst window" "snd window" "order_moves E st pos (legal_moves (lib E) pos)"
        NegInf None] l
    have "ab_inv st st'" by simp
    with base have b': "ab_inv st0 st'" by (rule ab_inv_trans)
    have b'': "ab_inv st0 (tt_record st' k d bv bm a b)" for k d bv bm a b
      using b' ab_inv_tt_record by (rule ab_inv_trans)
    from e base Inr l b' b'' show ?thesis
      by (subst alpha_beta.simps) (simp split: sum.splits)
  qed
qed

lemma alpha_beta_inv:
  "ab_inv st0 (snd (alpha_beta E pos depth alpha beta max_depth t_start max_time st0))"
  by (rule alpha_beta_inv_aux [OF order_refl])

lemma toy_env_simps:
  "lib toy_env = toy_lib" "evaluator toy_env b = Inr (evaluate_position toy_lib b)"
  "clock toy_env k = 0"
  by (simp_all add: toy_env_def)

lemma toy_lib_simps:
  "legal_moves toy_lib b = map fst (tb_moves b)"
  "piece_at toy_lib b sq = map_of (tb_pieces b) sq"
  "turn toy_lib b = tb_turn b"
  "push toy_lib b m = toy_push b m"
  "ply toy_lib b = tb_ply b"
  "fen toy_lib b = tb_fen b"
  "is_capture toy_lib b m = (map_of (tb_pieces b) (to_square m) \<noteq> None)"
  "is_checkmate toy_lib b = tb_mate b"
  "is_stalemate toy_lib b = (\<not> tb_mate b \<and> tb_moves b = [])"
  "is_insufficient_material toy_lib b = False"
  "is_game_over toy_lib b = (tb_moves b = [])"
  by (simp_all add: toy_lib_def)

lemmas toy_defs = toy_env_simps toy_lib_simps toy_push_def Move_def cut_capture_def
  enter_node_def time_time_def evaluate0_def tt_probe_def tt_record_def order_moves_def
  move_priority_def piece_value_def store_killer_move_def
  fgt_def fge_def fle_def py_max_def py_min_def Let_def

lemma cut_mated_val:
  "alpha_beta toy_env cut_mated d a b md 0 1 st =
     (Inr (Fin (- 1000)), st\<lparr>nodes_searched := nodes_searched st + 1, time_reads := Suc (time_reads st)\<rparr>)"
  by (subst alpha_beta.simps) (simp add: toy_defs cut_mated_def)

lemma cut_drawn_val:
  "alpha_beta toy_env cut_drawn d a b md 0 1 st =
     (Inr (Fin 0), st\<lparr>nodes_searched := nodes_searched st + 1, time_reads := Suc (time_reads st)\<rparr>)"
  by (subst alpha_beta.simps) (simp add: toy_defs cut_drawn_def)

lemma cut_reply_val:
  assumes "transposition_table st ''reply'' = None" "killer_moves st 1 = None"
  shows "alpha_beta toy_env cut_reply 1 NegInf (Fin 0) 2 0 1 st =
     (Inr (Fin 1000),
      st\<lparr>nodes_searched := nodes_searched st + 2, time_reads := Suc (Suc (time_reads st)),
          killer_moves := (killer_moves st)(1 \<mapsto> [cut_capture]),
          transposition_table := (transposition_table st)(''reply'' \<mapsto>
             \<lparr>tt_value = Fin 1000, tt_depth = 1, tt_kind = Lower, tt_move = Some cut_capture\<rparr>)\<rparr>)"
  using assms
  apply (subst alpha_beta.simps)
  apply (simp add: toy_defs cut_reply_def cut_mated_val del: alpha_beta.simps)
  done

lemma cut_root_val:
  "alpha_beta toy_env cut_root 0 NegInf PosInf 2 0 1 AlphaBetaSearch_init =
     (Inr (Fin 0),
      \<lparr>nodes_searched = 4,
       transposition_table = [''reply'' \<mapsto>
             \<lparr>tt_value = Fin 1000, tt_depth = 1, tt_kind = Lower, tt_move = Some cut_capture\<rparr>,
           ''root'' \<mapsto>
             \<lparr>tt_value = Fin 0, tt_depth = 0, tt_kind = Exact, tt_move = Some (Move 1 2 None)\<rparr>],
       killer_moves = [1 \<mapsto> [cut_capture]], history_table = Map.empty, time_reads = 4\<rparr>)"
  apply (subst alpha_beta.simps)
  apply (simp add: toy_defs AlphaBetaSearch_init_def cut_root_def cut_drawn_val cut_reply_val del: alpha_beta.simps)
  done


lemma toy_leaf_val:
  assumes "tb_moves b = []" "\<not> tb_mate b"
  shows "alpha_beta toy_env b d a be md 0 1 st =
     (Inr (Fin 0), st\<lparr>nodes_searched := nodes_searched st + 1, time_reads := Suc (time_reads st)\<rparr>)"
  using assms by (subst alpha_beta.simps) (simp add: toy_defs)

lemma alpha_beta_loop_cutoff:
  assumes "alpha_beta E (push (lib E) pos mv) (depth + 1) (fneg beta) (fneg alpha) max_depth
             t_start max_time st = (Inr v, st')"
    and "fge (fneg v) beta"
  shows "alpha_beta_loop E pos depth alpha beta max_depth t_start max_time (mv # rest)
           best_value best_move st =
         (Inr (if fgt (fneg v) best_value then fneg v else best_value,
               if fgt (fneg v) best_value then Some mv else best_move),
          store_killer_move st' mv (ply (lib E) pos))"
  using assms by (simp add: Let_def)

text \<open>
  C8 (as the code has it): when a move's value reaches beta in \<open>_alpha_beta\<close>, the loop
  ends there, whatever moves remain, and the state it leaves is the child's state with
  that move stored as a killer for the node's ply. Storing keeps the move in the ply's
  killer list, whether or not it is a capture, keeps every list at two entries or fewer
  and leaves the history table as it was; the whole search never changes the history
  table and keeps the killer lists bounded.
\<close>

theorem beta_cutoff_stores_killer:
  "(alpha_beta E (push (lib E) pos mv) (depth + 1) (fneg beta) (fneg alpha) max_depth
        t_start max_time st = (Inr v, st') \<and> fge (fneg v) beta \<longrightarrow>
      snd (alpha_beta_loop E pos depth alpha beta max_depth t_start max_time (mv # rest)
             best_value best_move st) = store_killer_move st' mv (ply (lib E) pos) \<and>
      alpha_beta_loop E pos depth alpha beta max_depth t_start max_time (mv # rest)
          best_value best_move st =
        alpha_beta_loop E pos depth alpha beta max_depth t_start max_time [mv]
          best_value best_move st) \<and>
   (\<exists>ks. killer_moves (store_killer_move st' mv d) d = Some ks \<and> mv \<in> set ks) \<and>
   history_table (store_killer_move st' mv d) = history_table st' \<and>
   (killers_bounded st' \<longrightarrow> killers_bounded (store_killer_move st' mv d)) \<and>
   history_table (snd (alpha_beta E pos0 depth0 alpha0 beta0 max_depth t_start max_time st0))
     = history_table st0 \<and>
   (killers_bounded st0 \<longrightarrow>
      killers_bounded
        (snd (alpha_beta E pos0 depth0 alpha0 beta0 max_depth t_start max_time st0)))"
proof (intro conjI impI)
  assume a: "alpha_beta E (push (lib E) pos mv) (depth + 1) (fneg beta) (fneg alpha) max_depth
        t_start max_time st = (Inr v, st') \<and> fge (fneg v) beta"
  then have c: "alpha_beta E (push (lib E) pos mv) (depth + 1) (fneg beta) (fneg alpha) max_depth
        t_start max_time st = (Inr v, st')" and g: "fge (fneg v) beta" by simp_all
  show "snd (alpha_beta_loop E pos depth alpha beta max_depth t_start max_time (mv # rest)
             best_value best_move st) = store_killer_move st' mv (ply (lib E) pos)"
    by (simp only: alpha_beta_loop_cutoff [OF c g] snd_conv)
  show "alpha_beta_loop E pos depth alpha beta max_depth t_start max_time (mv # rest)
          best_value best_move st =
        alpha_beta_loop E pos depth alpha beta max_depth t_start max_time [mv]
          best_value best_move st"
    by (simp only: alpha_beta_loop_cutoff [OF c g])
next
  show "\<exists>ks. killer_moves (store_killer_move st' mv d) d = Some ks \<and> mv \<in> set ks"
    by (rule store_killer_move_lookup)
next
  show "history_table (store_killer_move st' mv d) = history_table st'"
    by (rule store_killer_move_history)
next
  assume "killers_bounded st'"
  then show "killers_bounded (store_killer_move st' mv d)"
    by (rule store_killer_move_bounded)
next
  show "history_table (snd (alpha_beta E pos0 depth0 alpha0 beta0 max_depth t_start max_time st0))
     = history_table st0"
    using alpha_beta_inv [of st0 E pos0 depth0 alpha0 beta0 max_depth t_start max_time]
    by (simp add: ab_inv_def)
next
  assume "killers_bounded st0"
  then show "killers_bounded
      (snd (alpha_beta E pos0 depth0 alpha0 beta0 max_depth t_start max_time st0))"
    using alpha_beta_inv [of st0 E pos0 depth0 alpha0 beta0 max_depth t_start max_time]
    by (simp add: ab_inv_def)
qed

theorem beta_cutoff_stores_killer_witness:
  "alpha_beta toy_env (push (lib toy_env) cut_reply cut_capture) (1 + 1) (fneg (Fin 0))
       (fneg NegInf) 2 0 1 AlphaBetaSearch_init
     = (Inr (Fin (- 1000)), AlphaBetaSearch_init\<lparr>nodes_searched := 1, time_reads := 1\<rparr>) \<and>
   fge (fneg (Fin (- 1000))) (Fin 0) \<and>
   killers_bounded AlphaBetaSearch_init \<and>
   snd (alpha_beta_loop toy_env cut_reply 1 NegInf (Fin 0) 2 0 1 [cut_capture, Move 8 16 None]
          NegInf None AlphaBetaSearch_init)
     = store_killer_move (AlphaBetaSearch_init\<lparr>nodes_searched := 1, time_reads := 1\<rparr>)
         cut_capture (ply (lib toy_env) cut_reply) \<and>
   killers_bounded (snd (alpha_beta toy_env cut_root 0 NegInf PosInf 2 0 1 AlphaBetaSearch_init))"
proof -
  let ?st' = "AlphaBetaSearch_init\<lparr>nodes_searched := 1, time_reads := 1\<rparr>"
  have p: "push (lib toy_env) cut_reply cut_capture = cut_mated"
    by (simp add: toy_env_simps toy_lib_simps toy_push_def cut_reply_def)
  have h1: "alpha_beta toy_env (push (lib toy_env) cut_reply cut_capture) (1 + 1) (fneg (Fin 0))
       (fneg NegInf) 2 0 1 AlphaBetaSearch_init = (Inr (Fin (- 1000)), ?st')"
    unfolding p by (simp add: cut_mated_val AlphaBetaSearch_init_def del: alpha_beta.simps)
  have h2: "fge (fneg (Fin (- 1000))) (Fin 0)"
    by (simp add: fge_def fle_def)
  have h3: "killers_bounded AlphaBetaSearch_init"
    by (simp add: killers_bounded_def AlphaBetaSearch_init_def)
  from beta_cutoff_stores_killer [where E = toy_env and pos = cut_reply and mv = cut_capture
      and depth = 1 and beta = "Fin 0" and alpha = NegInf and max_depth = 2 and t_start = 0
      and max_time = 1 and st = AlphaBetaSearch_init and v = "Fin (- 1000)" and st' = ?st'
      and rest = "[Move 8 16 None]" and best_value = NegInf and best_move = None
      and pos0 = cut_root and depth0 = 0 and alpha0 = NegInf and beta0 = PosInf
      and st0 = AlphaBetaSearch_init] h1 h2 h3
  show ?thesis by blast
qed

text \<open>
  In the position with the refutation the move that cuts off at ply 1 is a capture; it is
  stored as that ply's killer, and it has no entry in the history table afterwards.
\<close>

theorem beta_cutoff_counterexample:
  "killer_moves (snd (alpha_beta toy_env cut_root 0 NegInf PosInf 2 0 1 AlphaBetaSearch_init)) 1
     = Some [cut_capture] \<and>
   is_capture (lib toy_env) cut_reply cut_capture \<and>
   history_table (snd (alpha_beta toy_env cut_root 0 NegInf PosInf 2 0 1 AlphaBetaSearch_init))
     cut_capture = None"
  by (simp add: cut_root_val toy_env_simps toy_lib_simps cut_reply_def cut_capture_def Move_def
        del: alpha_beta.simps)

lemma search_bestmove_None:
  "(\<exists>e. fst (search E pos max_time max_depth st) = Inl e) \<or>
   (\<exists>res. fst (search E pos max_time max_depth st) = Inr res \<and> bestmove res = None)"
  by (auto simp: search_def Let_def split: prod.splits sum.splits option.splits)

text \<open>
  C1 fails on the code: \<open>search\<close> never assigns \<open>best_move\<close>. On the position of the
  promotion test, which has four legal moves, a search to depth 1 with time to spare
  visits the root and its four children and reports no best move.
\<close>

theorem search_reports_no_best_move:
  "legal_moves (lib toy_env) promotion_board \<noteq> [] \<and>
   fst (search toy_env promotion_board 1 1 AlphaBetaSearch_init) =
     Inr \<lparr>bestmove = None, pv = [], best_val = Fin 0, centipawns = 0, nodes = 5,
          depth_done = 0\<rparr>"
proof -
  have root: "alpha_beta toy_env promotion_board 0 NegInf PosInf 1 0 1
          \<lparr>nodes_searched = 0, transposition_table = Map.empty, killer_moves = Map.empty,
           history_table = Map.empty, time_reads = Suc (Suc 0)\<rparr> =
        (Inr (Fin 0),
         \<lparr>nodes_searched = 5,
          transposition_table = [''8/4P3/8/8/8/8/8/8 w - - 0 1'' \<mapsto>
             \<lparr>tt_value = Fin 0, tt_depth = 0, tt_kind = Exact,
              tt_move = Some (Move 52 60 (Some QUEEN))\<rparr>],
          killer_moves = Map.empty, history_table = Map.empty, time_reads = 7\<rparr>)"
    apply (subst alpha_beta.simps)
    apply (simp add: toy_defs promotion_board_def toy_leaf_val del: alpha_beta.simps)
    done
  have "fst (search toy_env promotion_board 1 1 AlphaBetaSearch_init) =
     Inr \<lparr>bestmove = None, pv = [], best_val = Fin 0, centipawns = 0, nodes = 5,
          depth_done = 0\<rparr>"
    by (simp add: search_def AlphaBetaSearch_init_def time_time_def toy_env_simps root
          fgt_def score_to_centipawns_def value_to_centipawns_def py_int_def
          del: alpha_beta.simps)
  moreover have "legal_moves (lib toy_env) promotion_board \<noteq> []"
    by (simp add: toy_env_simps toy_lib_simps promotion_board_def)
  ultimately show ?thesis by simp
qed

section \<open>Selecting the move at temperature 0\<close>

lemma py_max_from_first_max:
  "\<exists>pre post. best # xs = pre @ py_max_from key best xs # post \<and>
     (\<forall>y \<in> set pre. key y < key (py_max_from key best xs)) \<and>
     (\<forall>y \<in> set post. key y \<le> key (py_max_from key best xs))"
proof (induction xs arbitrary: best)
  case Nil
  have "[best] = [] @ py_max_from key best [] # []" by simp
  then show ?case by (intro exI [of _ "[]"]) simp
next
  case (Cons x xs)
  show ?case
  proof (cases "key x > key best")
    case True
    let ?r = "py_max_from key x xs"
    from Cons.IH [of x] obtain pre post where d: "x # xs = pre @ ?r # post"
      and lt: "\<forall>y \<in> set pre. key y < key ?r" and le: "\<forall>y \<in> set post. key y \<le> key ?r"
      by blast
    have "x \<in> set (pre @ ?r # post)" using d by (metis list.set_intros(1))
    then have "key x \<le> key ?r" using lt le by auto
    with True have b: "key best < key ?r" by simp
    have r: "py_max_from key best (x # xs) = ?r" using True by simp
    have "best # x # xs = (best # pre) @ ?r # post" using d by simp
    moreover have "\<forall>y \<in> set (best # pre). key y < key ?r" using lt b by simp
    ultimately show ?thesis unfolding r using le by blast
  next
    case False
    let ?r = "py_max_from key best xs"
    from Cons.IH [of best] obtain pre post where d: "best # xs = pre @ ?r # post"
      and lt: "\<forall>y \<in> set pre. key y < key ?r" and le: "\<forall>y \<in> set post. key y \<le> key ?r"
      by blast
    have r: "py_max_from key best (x # xs) = ?r" using False by simp
    show ?thesis
    proof (cases pre)
      case Nil
      from d have "best # xs = ?r # post" unfolding Nil by (simp only: append_Nil)
      then have c: "best = ?r \<and> xs = post" by (rule iffD1 [OF list.inject])
      have e: "?r = best" using c by (rule conjunct1 [THEN sym])
      have e': "post = xs" using c by (rule conjunct2 [THEN sym])
      have "best # x # xs = [] @ ?r # (x # xs)" by (simp only: e append_Nil)
      moreover have "\<forall>y \<in> set (x # xs). key y \<le> key ?r"
        using le False unfolding e e' by auto
      moreover have "\<forall>y \<in> set ([]::'a list). key y < key ?r" by simp
      ultimately show ?thesis unfolding r by blast
    next
      case (Cons p pre')
      from d have "best # xs = p # (pre' @ ?r # post)" unfolding Cons by (simp only: append_Cons)
      then have c: "best = p \<and> xs = pre' @ ?r # post" by (rule iffD1 [OF list.inject])
      have p: "p = best" using c by (rule conjunct1 [THEN sym])
      have xs: "xs = pre' @ ?r # post" using c by (rule conjunct2)
      from lt Cons p have b: "key best < key ?r" by simp
      have "best # x # xs = (best # x # pre') @ ?r # post" using xs by simp
      moreover have "\<forall>y \<in> set (best # x # pre'). key y < key ?r"
        using lt Cons p b False by auto
      ultimately show ?thesis unfolding r using le by blast
    qed
  qed
qed

text \<open>
  C6: with temperature 0, \<open>get_best_move\<close> returns the move of the most-visited child of
  the root, the first such child in the order of the children list, and the result does
  not depend on the random source: any two selections from the same tree agree.
\<close>

theorem get_best_move_deterministic:
  assumes "children (s ! root_node) \<noteq> []"
  shows "\<exists>pre c post. children (s ! root_node) = pre @ c # post \<and>
           (\<forall>y \<in> set pre. visits (s ! y) < visits (s ! c)) \<and>
           (\<forall>y \<in> set post. visits (s ! y) \<le> visits (s ! c)) \<and>
           (\<forall>sample. get_best_move sample s root_node 0 = Inr (move (s ! c)))"
proof -
  from assms obtain c cs where cs: "children (s ! root_node) = c # cs"
    by (cases "children (s ! root_node)") auto
  let ?key = "\<lambda>c. visits (s ! c)"
  let ?r = "py_max_from ?key c cs"
  from py_max_from_first_max [of c cs ?key] obtain pre post
    where d: "c # cs = pre @ ?r # post"
      and lt: "\<forall>y \<in> set pre. ?key y < ?key ?r" and le: "\<forall>y \<in> set post. ?key y \<le> ?key ?r"
    by blast
  have "\<forall>sample. get_best_move sample s root_node 0 = Inr (move (s ! ?r))"
    by (simp add: get_best_move_def cs)
  with d lt le show ?thesis unfolding cs by blast
qed

theorem get_best_move_deterministic_witness:
  "children (tie_store ! 0) \<noteq> [] \<and>
   (\<forall>sample. get_best_move sample tie_store 0 0 = Inr (Some (Move 52 60 (Some ROOK))))"
proof -
  have h: "children (tie_store ! 0) \<noteq> []" by (simp add: tie_store_def)
  from get_best_move_deterministic [OF h] obtain c
    where c: "\<forall>sample. get_best_move sample tie_store 0 0 = Inr (move (tie_store ! c))"
    by blast
  have "get_best_move (\<lambda>vs t. Inl ValueError) tie_store 0 0 = Inr (Some (Move 52 60 (Some ROOK)))"
    by (simp add: get_best_move_def tie_store_def)
  with c have "move (tie_store ! c) = Some (Move 52 60 (Some ROOK))" by simp
  with c h show ?thesis by simp
qed

section \<open>Monte Carlo tree search: expansion with a degenerate policy\<close>

lemma toy_mcts_env_simps:
  "chess toy_mcts_env = toy_lib"
  "network toy_mcts_env k b = Inr (replicate (nat (action_space_size move_index)) 0, 0)"
  "time_now toy_mcts_env k = 0"
  by (simp_all add: toy_mcts_env_def)

lemma masked_zero_sum:
  "sum_list (map (\<lambda>(p, b). if b then p else 0) (zip (replicate n (0::real)) msk)) = 0"
proof (induction msk arbitrary: n)
  case Nil
  show ?case by simp
next
  case (Cons b msk)
  show ?case
  proof (cases n)
    case 0
    then show ?thesis by simp
  next
    case (Suc k)
    with Cons.IH [of k] show ?thesis by simp
  qed
qed

lemma normalize_zero_policy:
  "length msk = n \<Longrightarrow>
   (case mask_policy (replicate n 0) msk of
      Inl e \<Rightarrow> Inl e
    | Inr masked \<Rightarrow> normalize_policy masked msk) = Inl AttributeError"
  by (simp add: mask_policy_def normalize_policy_def masked_zero_sum)

lemma expand_root_zero_policy:
  "expand_node toy_mcts_env 0 \<lparr>store = [new_root promotion_board], events = 0\<rparr>
     = Inl AttributeError"
proof -
  from get_legal_move_mask_spec [OF promotion_board_wf] obtain msk
    where g: "get_legal_move_mask toy_lib move_index promotion_board = Inr msk"
      and len: "length msk = nat (action_space_size move_index)"
    by blast
  have b: "board (new_root promotion_board) = promotion_board"
    "is_expanded (new_root promotion_board) = False"
    by (simp_all add: new_root_def)
  have o: "\<not> is_game_over toy_lib promotion_board"
    "legal_moves toy_lib promotion_board \<noteq> []"
    by (simp_all add: toy_lib_def promotion_board_def)
  have n: "(case mask_policy (replicate (nat (action_space_size move_index)) 0) msk of
      Inl e \<Rightarrow> Inl e
    | Inr masked \<Rightarrow> normalize_policy masked msk) = Inl AttributeError"
    using len by (rule normalize_zero_policy)
  then have n': "\<And>f. (case mask_policy (replicate (nat (action_space_size move_index)) 0) msk of
      Inl e \<Rightarrow> Inl e
    | Inr masked \<Rightarrow> (case normalize_policy masked msk of Inl e \<Rightarrow> Inl e | Inr lp \<Rightarrow> f lp))
      = Inl AttributeError"
    by (auto split: sum.splits)
  show ?thesis
    unfolding expand_node_def Let_def
    by (simp only: mcts_state.simps nth_Cons_0 b o toy_mcts_env_simps g sum.case fst_conv
          if_False simp_thms n')
qed

text \<open>
  C2 fails on the code: when the masked policy sums to zero, \<open>_expand_node\<close> evaluates
  \<open>legal_mask.sum()\<close> on the Python list that \<open>get_legal_move_mask\<close> returns, which
  raises AttributeError, and \<open>search\<close> does not catch it. On the position of the promotion
  test with a network whose policy is 0 everywhere, the call raises while expanding the
  root.
\<close>

theorem search_raises_on_zero_policy:
  "legal_moves (chess toy_mcts_env) promotion_board \<noteq> [] \<and>
   mcts_search toy_mcts_env promotion_board 1 None = Some (Inl AttributeError)"
proof -
  have "legal_moves (chess toy_mcts_env) promotion_board \<noteq> []"
    by (simp add: toy_mcts_env_simps toy_lib_def promotion_board_def)
  moreover have "mcts_search toy_mcts_env promotion_board 1 None = Some (Inl AttributeError)"
    by (simp add: mcts_search_def search_run_def expand_root_zero_policy)
  ultimately show ?thesis by simp
qed

end
